theory Spec2Isabelle
  imports Main
begin

section \<open>SILBasicBlock: data model\<close>

text \<open>
  Blocks, instructions and successor edges are mutually referential C++ objects. They are
  modelled as handles into one explicit store: every pointer-valued field of the header
  becomes a function from the handle of its object to the handle (or null) it points at.
\<close>

type_synonym block = nat
type_synonym inst = nat
type_synonym edge = nat

type_synonym SILType = nat
type_synonym ValueOwnershipKind = nat
type_synonym ValueDecl = nat

text \<open>The two kinds of block argument (classes \<open>SILPHIArgument\<close> and \<open>SILFunctionArgument\<close>).\<close>

datatype SILArgument =
    SILPHIArgument SILType ValueOwnershipKind "ValueDecl option"
  | SILFunctionArgument SILType ValueOwnershipKind "ValueDecl option"

text \<open>
  An instruction is either an ordinary instruction or a \<open>TermInst\<close>, which carries its
  fixed-shape list of successor edges (\<open>TermInst::getSuccessors()\<close>).
\<close>

datatype inst_kind = NonTerminator | TermInst "edge list"

text \<open>
  How a call can fail. An \<open>assert\<close> of the header (or of a library routine that checks
  in assertion-enabled builds) aborts; an operation whose precondition nothing checks is
  undefined behaviour.
\<close>

datatype assertion =
    MalformedBlock          \<comment> \<open>"Can't get successors for malformed block"\<close>
  | CastIncompatibleType    \<comment> \<open>\<open>cast<TermInst>\<close> on a non-terminator\<close>
  | DerefSentinel           \<comment> \<open>dereferencing the end of an \<open>iplist\<close>\<close>
  | ArgIndexOutOfRange      \<comment> \<open>parameter index contract of section 7 of the specification\<close>

datatype failure = AssertionFailed assertion | UndefinedBehavior

record SILState =
  Blocks :: "block list"                      \<comment> \<open>the parent function's block order\<close>
  InstList :: "block \<Rightarrow> inst list"
  ArgumentList :: "block \<Rightarrow> SILArgument list"
  PredList :: "block \<Rightarrow> edge option"
  ParentBB :: "inst \<Rightarrow> block option"          \<comment> \<open>instruction's containing block\<close>
  InstKind :: "inst \<Rightarrow> inst_kind"
  DroppedRefs :: "inst list"                  \<comment> \<open>calls of \<open>SILInstruction::dropAllReferences\<close>\<close>
  ContainingInst :: "edge \<Rightarrow> inst"            \<comment> \<open>the terminator that owns the edge\<close>
  SuccessorBlock :: "edge \<Rightarrow> block option"    \<comment> \<open>the edge's target, or null\<close>
  Next :: "edge \<Rightarrow> edge option"               \<comment> \<open>next edge in the target's chain\<close>
  Prev :: "edge \<Rightarrow> edge option"               \<comment> \<open>previous edge in the target's chain\<close>

section \<open>Argument list\<close>

definition getNumArguments :: "SILState \<Rightarrow> block \<Rightarrow> nat" where
  "getNumArguments s B = length (ArgumentList s B)"

text \<open>
  \<open>arg_iterator Pos = ArgumentList.begin(); std::advance(Pos, Index);\<close>
  An \<open>arg_iterator\<close> is a position \<open>0..size\<close>; nothing checks that the advance stays
  inside the vector.
\<close>

definition advance_arg :: "SILState \<Rightarrow> block \<Rightarrow> nat \<Rightarrow> failure + nat" where
  "advance_arg s B Index =
     (if Index \<le> length (ArgumentList s B) then Inr Index else Inl UndefinedBehavior)"

text \<open>\<open>insertArgument(Iter, Arg)\<close>: \<open>ArgumentList.insert(Iter, Arg)\<close>.\<close>

definition insertArgument :: "SILState \<Rightarrow> block \<Rightarrow> nat \<Rightarrow> SILArgument \<Rightarrow> failure + SILState" where
  "insertArgument s B Iter Arg =
     (if Iter \<le> length (ArgumentList s B)
      then Inr (s\<lparr>ArgumentList := (ArgumentList s)
                  (B := take Iter (ArgumentList s B) @ Arg # drop Iter (ArgumentList s B))\<rparr>)
      else Inl UndefinedBehavior)"

text \<open>
  Modelled from the spec: the iterator overloads \<open>insertPHIArgument(arg_iterator, ...)\<close>
  and \<open>insertFunctionArgument(arg_iterator, ...)\<close> are declared in the header and defined
  elsewhere. Section 4.3: a parameter of the given kind is created at the given position;
  the header notes that the argument's constructor adds it through \<open>insertArgument\<close>.
\<close>

definition insertPHIArgument_Pos ::
  "SILState \<Rightarrow> block \<Rightarrow> nat \<Rightarrow> SILType \<Rightarrow> ValueOwnershipKind \<Rightarrow> ValueDecl option
     \<Rightarrow> failure + (SILArgument \<times> SILState)" where
  "insertPHIArgument_Pos s B Pos Ty Kind D =
     (case insertArgument s B Pos (SILPHIArgument Ty Kind D) of
        Inl f \<Rightarrow> Inl f
      | Inr s' \<Rightarrow> Inr (SILPHIArgument Ty Kind D, s'))"

definition insertFunctionArgument_Pos ::
  "SILState \<Rightarrow> block \<Rightarrow> nat \<Rightarrow> SILType \<Rightarrow> ValueOwnershipKind \<Rightarrow> ValueDecl option
     \<Rightarrow> failure + (SILArgument \<times> SILState)" where
  "insertFunctionArgument_Pos s B Pos Ty OwnershipKind D =
     (case insertArgument s B Pos (SILFunctionArgument Ty OwnershipKind D) of
        Inl f \<Rightarrow> Inl f
      | Inr s' \<Rightarrow> Inr (SILFunctionArgument Ty OwnershipKind D, s'))"

text \<open>The index overloads, as written in the header.\<close>

definition insertPHIArgument ::
  "SILState \<Rightarrow> block \<Rightarrow> nat \<Rightarrow> SILType \<Rightarrow> ValueOwnershipKind \<Rightarrow> ValueDecl option
     \<Rightarrow> failure + (SILArgument \<times> SILState)" where
  "insertPHIArgument s B Index Ty Kind D =
     (case advance_arg s B Index of
        Inl f \<Rightarrow> Inl f
      | Inr Pos \<Rightarrow> insertPHIArgument_Pos s B Pos Ty Kind D)"

definition insertFunctionArgument ::
  "SILState \<Rightarrow> block \<Rightarrow> nat \<Rightarrow> SILType \<Rightarrow> ValueOwnershipKind \<Rightarrow> ValueDecl option
     \<Rightarrow> failure + (SILArgument \<times> SILState)" where
  "insertFunctionArgument s B Index Ty OwnershipKind D =
     (case advance_arg s B Index of
        Inl f \<Rightarrow> Inl f
      | Inr Pos \<Rightarrow> insertFunctionArgument_Pos s B Pos Ty OwnershipKind D)"

text \<open>
  Modelled from the spec: \<open>eraseArgument(int Index)\<close> is declared in the header and defined
  elsewhere. Section 4.3: it removes one parameter and shifts later indices down; an
  out-of-range position is a contract violation (section 7).
\<close>

definition eraseArgument :: "SILState \<Rightarrow> block \<Rightarrow> int \<Rightarrow> failure + SILState" where
  "eraseArgument s B Index =
     (if 0 \<le> Index \<and> Index < int (length (ArgumentList s B))
      then Inr (s\<lparr>ArgumentList := (ArgumentList s)
                  (B := take (nat Index) (ArgumentList s B)
                          @ drop (Suc (nat Index)) (ArgumentList s B))\<rparr>)
      else Inl (AssertionFailed ArgIndexOutOfRange))"

text \<open>
  Modelled from the spec: \<open>replacePHIArgument(i, Ty, Kind, D)\<close> is declared in the header
  and defined elsewhere. Section 4.3: it substitutes a parameter in place, preserving
  position; an out-of-range index is a contract violation (section 7).
\<close>

definition replacePHIArgument ::
  "SILState \<Rightarrow> block \<Rightarrow> nat \<Rightarrow> SILType \<Rightarrow> ValueOwnershipKind \<Rightarrow> ValueDecl option
     \<Rightarrow> failure + (SILArgument \<times> SILState)" where
  "replacePHIArgument s B i Ty Kind D =
     (if i < length (ArgumentList s B)
      then Inr (SILPHIArgument Ty Kind D,
                s\<lparr>ArgumentList := (ArgumentList s)
                  (B := (ArgumentList s B)[i := SILPHIArgument Ty Kind D])\<rparr>)
      else Inl (AssertionFailed ArgIndexOutOfRange))"

text \<open>\<open>dropAllArguments()\<close>: \<open>ArgumentList.clear()\<close>.\<close>

definition dropAllArguments :: "SILState \<Rightarrow> block \<Rightarrow> SILState" where
  "dropAllArguments s B = s\<lparr>ArgumentList := (ArgumentList s)(B := [])\<rparr>"

section \<open>Instruction list\<close>

definition empty :: "SILState \<Rightarrow> block \<Rightarrow> bool" where
  "empty s B = (InstList s B = [])"

text \<open>
  \<open>back()\<close> (named \<open>back_inst\<close> here): \<open>InstList.back()\<close>. The header checks nothing itself; \<open>iplist::back\<close>
  dereferences the iterator before \<open>end()\<close>, and the list library's iterator asserts, in
  assertion-enabled builds, that it is not dereferenced at the sentinel.
\<close>

definition back_inst :: "SILState \<Rightarrow> block \<Rightarrow> failure + inst" where
  "back_inst s B =
     (if InstList s B = [] then Inl (AssertionFailed DerefSentinel)
      else Inr (last (InstList s B)))"

text \<open>\<open>cast<TermInst>(I)\<close> asserts that the instruction is a terminator.\<close>

definition cast_TermInst :: "SILState \<Rightarrow> inst \<Rightarrow> failure + inst" where
  "cast_TermInst s I =
     (case InstKind s I of
        TermInst _ \<Rightarrow> Inr I
      | NonTerminator \<Rightarrow> Inl (AssertionFailed CastIncompatibleType))"

text \<open>
  \<open>getTerminator()\<close>:
  \<open>assert(!InstList.empty() && "Can't get successors for malformed block");\<close>
  \<open>return cast<TermInst>(&InstList.back());\<close>
\<close>

definition getTerminator :: "SILState \<Rightarrow> block \<Rightarrow> failure + inst" where
  "getTerminator s B =
     (if InstList s B = [] then Inl (AssertionFailed MalformedBlock)
      else (case back_inst s B of
              Inl f \<Rightarrow> Inl f
            | Inr I \<Rightarrow> cast_TermInst s I))"

text \<open>
  Modelled from the spec: \<open>ilist_traits<SILInstruction>::transferNodesFromList\<close>, which
  the list calls on a splice, is defined elsewhere. Section 4.1: each moved instruction's
  back-reference to its containing block is updated as part of the splice.
\<close>

definition transferNodesFromList :: "block \<Rightarrow> inst list \<Rightarrow> (inst \<Rightarrow> block option) \<Rightarrow> (inst \<Rightarrow> block option)" where
  "transferNodesFromList ThisParent moved parent =
     fold (\<lambda>I p. p(I := Some ThisParent)) moved parent"

text \<open>
  \<open>spliceAtEnd(Other)\<close>: \<open>InstList.splice(end(), Other->InstList)\<close>.
  \<open>iplist::splice\<close> does nothing for an empty source, and nothing when the range's end is
  the insertion point (the list spliced onto its own end).
\<close>

definition spliceAtEnd :: "SILState \<Rightarrow> block \<Rightarrow> block \<Rightarrow> SILState" where
  "spliceAtEnd s B Other =
     (if InstList s Other = [] \<or> B = Other then s
      else s\<lparr>InstList := (InstList s)(B := InstList s B @ InstList s Other, Other := []),
             ParentBB := transferNodesFromList B (InstList s Other) (ParentBB s)\<rparr>)"

text \<open>
  Modelled from the spec: \<open>split(iterator I)\<close> and the constructor
  \<open>SILBasicBlock(F, afterBB)\<close> are declared in the header and defined elsewhere.
  Section 4.4: a new block is created immediately after this one in the function's block
  order; every instruction from the position to the end is moved, in order, to the new
  block; the instructions strictly before the position remain; the new block has no
  parameters and no incoming edges. An iterator is a position \<open>0..size\<close> of this block's
  list, \<open>end()\<close> being \<open>size\<close>; the new block's handle is one the function does not use.
\<close>

definition newBlock :: "SILState \<Rightarrow> block" where
  "newBlock s = Suc (fold max (Blocks s) 0)"

fun insertAfter :: "block \<Rightarrow> block \<Rightarrow> block list \<Rightarrow> block list" where
  "insertAfter afterBB New [] = []"
| "insertAfter afterBB New (X # Xs) =
     (if X = afterBB then X # New # Xs else X # insertAfter afterBB New Xs)"

definition split :: "SILState \<Rightarrow> block \<Rightarrow> nat \<Rightarrow> failure + (block \<times> SILState)" where
  "split s B I =
     (if B \<notin> set (Blocks s) \<or> length (InstList s B) < I then Inl UndefinedBehavior
      else Inr (newBlock s,
        s\<lparr>Blocks := insertAfter B (newBlock s) (Blocks s),
          InstList := (InstList s)(B := take I (InstList s B),
                                   newBlock s := drop I (InstList s B)),
          ArgumentList := (ArgumentList s)(newBlock s := []),
          PredList := (PredList s)(newBlock s := None),
          ParentBB := transferNodesFromList (newBlock s) (drop I (InstList s B)) (ParentBB s)\<rparr>))"

text \<open>
  Modelled from the spec: \<open>SILInstruction::dropAllReferences\<close> belongs to the instruction
  class, defined elsewhere. Section 2: it is a hook the block invokes; the model records
  the invocation.
\<close>

definition inst_dropAllReferences :: "SILState \<Rightarrow> inst \<Rightarrow> SILState" where
  "inst_dropAllReferences s I = s\<lparr>DroppedRefs := DroppedRefs s @ [I]\<rparr>"

text \<open>
  \<open>dropAllReferences()\<close>:
  \<open>dropAllArguments(); for (SILInstruction &I : *this) I.dropAllReferences();\<close>
\<close>

definition dropAllReferences :: "SILState \<Rightarrow> block \<Rightarrow> SILState" where
  "dropAllReferences s B =
     (let s1 = dropAllArguments s B
      in fold (\<lambda>I t. inst_dropAllReferences t I) (InstList s1 B) s1)"

section \<open>Successors\<close>

definition TermInst_getSuccessors :: "SILState \<Rightarrow> inst \<Rightarrow> edge list" where
  "TermInst_getSuccessors s T = (case InstKind s T of TermInst es \<Rightarrow> es | NonTerminator \<Rightarrow> [])"

text \<open>\<open>getSuccessors()\<close>: \<open>getTerminator()->getSuccessors()\<close>.\<close>

definition getSuccessors :: "SILState \<Rightarrow> block \<Rightarrow> failure + edge list" where
  "getSuccessors s B =
     (case getTerminator s B of
        Inl f \<Rightarrow> Inl f
      | Inr T \<Rightarrow> Inr (TermInst_getSuccessors s T))"

text \<open>A \<open>succ_iterator\<close> is a position in the successor list.\<close>

definition succ_empty :: "SILState \<Rightarrow> block \<Rightarrow> failure + bool" where
  "succ_empty s B = (case getSuccessors s B of Inl f \<Rightarrow> Inl f | Inr ss \<Rightarrow> Inr (ss = []))"

definition succ_begin :: "SILState \<Rightarrow> block \<Rightarrow> failure + nat" where
  "succ_begin s B = (case getSuccessors s B of Inl f \<Rightarrow> Inl f | Inr ss \<Rightarrow> Inr 0)"

definition succ_end :: "SILState \<Rightarrow> block \<Rightarrow> failure + nat" where
  "succ_end s B = (case getSuccessors s B of Inl f \<Rightarrow> Inl f | Inr ss \<Rightarrow> Inr (length ss))"

text \<open>
  Dereferencing a successor iterator as a block pointer reads the edge's target
  (\<open>SILSuccessor::getBB\<close>), which may be null.
\<close>

definition succ_deref :: "SILState \<Rightarrow> block \<Rightarrow> nat \<Rightarrow> failure + block option" where
  "succ_deref s B it =
     (case getSuccessors s B of
        Inl f \<Rightarrow> Inl f
      | Inr ss \<Rightarrow> (if it < length ss then Inr (SuccessorBlock s (ss ! it))
                   else Inl UndefinedBehavior))"

text \<open>
  \<open>getSingleSuccessorBlock()\<close>:
  \<open>if (succ_empty() || std::next(succ_begin()) != succ_end()) return nullptr;\<close>
  \<open>return *succ_begin();\<close>
\<close>

definition getSingleSuccessorBlock :: "SILState \<Rightarrow> block \<Rightarrow> failure + block option" where
  "getSingleSuccessorBlock s B =
     (case succ_empty s B of
        Inl f \<Rightarrow> Inl f
      | Inr True \<Rightarrow> Inr None
      | Inr False \<Rightarrow>
          (case succ_begin s B of
             Inl f \<Rightarrow> Inl f
           | Inr b \<Rightarrow>
               (case succ_end s B of
                  Inl f \<Rightarrow> Inl f
                | Inr e \<Rightarrow> (if Suc b \<noteq> e then Inr None else succ_deref s B b))))"

text \<open>\<open>getSuccessorBlocks()\<close>: the successor list mapped through \<open>SILSuccessor::getBB\<close>.\<close>

definition getSuccessorBlocks :: "SILState \<Rightarrow> block \<Rightarrow> failure + block option list" where
  "getSuccessorBlocks s B =
     (case getSuccessors s B of
        Inl f \<Rightarrow> Inl f
      | Inr ss \<Rightarrow> Inr (map (SuccessorBlock s) ss))"

text \<open>\<open>isSuccessorBlock(BB)\<close>: \<open>any_of\<close> over \<open>getSuccessorBlocks()\<close>.\<close>

definition isSuccessorBlock :: "SILState \<Rightarrow> block \<Rightarrow> block option \<Rightarrow> failure + bool" where
  "isSuccessorBlock s B BB =
     (case getSuccessorBlocks s B of
        Inl f \<Rightarrow> Inl f
      | Inr Rng \<Rightarrow> Inr (list_ex (\<lambda>SuccBB. BB = SuccBB) Rng))"

section \<open>Predecessors\<close>

text \<open>A \<open>pred_iterator\<close> holds the current edge of the chain, or null at the end.\<close>

definition pred_empty :: "SILState \<Rightarrow> block \<Rightarrow> bool" where
  "pred_empty s B = (PredList s B = None)"

definition pred_begin :: "SILState \<Rightarrow> block \<Rightarrow> edge option" where
  "pred_begin s B = PredList s B"

definition pred_end :: "edge option" where
  "pred_end = None"

text \<open>
  Modelled from the spec: \<open>SILSuccessorIterator\<close> is defined elsewhere. Sections 4.2 and
  9: advancing follows the edge's next-sibling handle; dereferencing yields the source
  block of the edge, the block containing the terminator that owns it.
\<close>

definition pred_deref :: "SILState \<Rightarrow> edge \<Rightarrow> block option" where
  "pred_deref s e = ParentBB s (ContainingInst s e)"

text \<open>
  Enumerating \<open>pred_begin() .. pred_end()\<close>. The walk follows the next-sibling handles
  (passed as \<open>nxt\<close>) until null; on a chain that never reaches null it does not return.
\<close>

partial_function (option) pred_range :: "(edge \<Rightarrow> edge option) \<Rightarrow> edge option \<Rightarrow> edge list option" where
  "pred_range nxt it =
     (case it of
        None \<Rightarrow> Some []
      | Some e \<Rightarrow> Option.bind (pred_range nxt (nxt e)) (\<lambda>rest. Some (e # rest)))"

text \<open>\<open>getPredecessorBlocks()\<close>: the range \<open>{pred_begin(), pred_end()}\<close>, read as blocks.\<close>

definition getPredecessorBlocks :: "SILState \<Rightarrow> block \<Rightarrow> block option list option" where
  "getPredecessorBlocks s B =
     map_option (map (pred_deref s)) (pred_range (Next s) (pred_begin s B))"

text \<open>\<open>isPredecessorBlock(BB)\<close>: \<open>any_of\<close> over the range, stopping at the first match.\<close>

partial_function (option) pred_any_of ::
  "(edge \<Rightarrow> edge option) \<Rightarrow> (edge \<Rightarrow> bool) \<Rightarrow> edge option \<Rightarrow> bool option" where
  "pred_any_of nxt P it =
     (case it of
        None \<Rightarrow> Some False
      | Some e \<Rightarrow> (if P e then Some True else pred_any_of nxt P (nxt e)))"

definition isPredecessorBlock :: "SILState \<Rightarrow> block \<Rightarrow> block option \<Rightarrow> bool option" where
  "isPredecessorBlock s B BB =
     pred_any_of (Next s) (\<lambda>e. BB = pred_deref s e) (pred_begin s B)"

text \<open>
  \<open>getSinglePredecessorBlock()\<close>:
  \<open>if (pred_empty() || std::next(pred_begin()) != pred_end()) return nullptr;\<close>
  \<open>return *pred_begin();\<close>
\<close>

definition getSinglePredecessorBlock :: "SILState \<Rightarrow> block \<Rightarrow> block option" where
  "getSinglePredecessorBlock s B =
     (if pred_empty s B then None
      else (case pred_begin s B of
              None \<Rightarrow> None
            | Some e \<Rightarrow> (if Next s e \<noteq> pred_end then None else pred_deref s e)))"

section \<open>Retargeting a successor edge\<close>

text \<open>
  Modelled from the spec: \<open>SILSuccessor\<close> and its assignment of a new target are defined
  elsewhere. Sections 3, 4.2 and 9: each edge is a node in an intrusive chain rooted at its
  current target; the block stores only the chain head, the edge its next and previous
  sibling and its target. Retargeting unlinks the edge from the old target's chain and
  links it into the new one, at the head.
\<close>

definition unlink_edge :: "SILState \<Rightarrow> edge \<Rightarrow> SILState" where
  "unlink_edge s e =
     (case SuccessorBlock s e of
        None \<Rightarrow> s
      | Some Old \<Rightarrow>
          (let s1 = (case Prev s e of
                       None \<Rightarrow> s\<lparr>PredList := (PredList s)(Old := Next s e)\<rparr>
                     | Some p \<Rightarrow> s\<lparr>Next := (Next s)(p := Next s e)\<rparr>)
           in (case Next s e of
                 None \<Rightarrow> s1
               | Some n \<Rightarrow> s1\<lparr>Prev := (Prev s1)(n := Prev s e)\<rparr>)))"

definition link_edge :: "SILState \<Rightarrow> edge \<Rightarrow> block option \<Rightarrow> SILState" where
  "link_edge s e BB =
     (case BB of
        None \<Rightarrow> s
      | Some New \<Rightarrow>
          (let s1 = s\<lparr>Prev := (Prev s)(e := None), Next := (Next s)(e := PredList s New)\<rparr>;
               s2 = (case PredList s New of
                       None \<Rightarrow> s1
                     | Some h \<Rightarrow> s1\<lparr>Prev := (Prev s1)(h := Some e)\<rparr>)
           in s2\<lparr>PredList := (PredList s2)(New := Some e)\<rparr>))"

definition setSuccessor :: "SILState \<Rightarrow> edge \<Rightarrow> block option \<Rightarrow> SILState" where
  "setSuccessor s e BB =
     (let s1 = link_edge (unlink_edge s e) e BB
      in s1\<lparr>SuccessorBlock := (SuccessorBlock s1)(e := BB)\<rparr>)"

text \<open>
  The states of the graph: every edge starts unbound and every chain empty (the rest of
  the state is arbitrary); each step retargets one edge.
\<close>

definition unlinked :: "SILState \<Rightarrow> bool" where
  "unlinked s = ((\<forall>e. SuccessorBlock s e = None) \<and> (\<forall>B. PredList s B = None))"

inductive reachable :: "SILState \<Rightarrow> bool" where
  start: "unlinked s \<Longrightarrow> reachable s"
| retarget: "reachable s \<Longrightarrow> reachable (setSuccessor s e BB)"

text \<open>The in-degree of a block: the successor edges whose target field is the block.\<close>

definition incoming :: "SILState \<Rightarrow> block \<Rightarrow> edge set" where
  "incoming s B = {e. SuccessorBlock s e = Some B}"

section \<open>The predecessor chain as a list\<close>

text \<open>
  \<open>pred_chain nxt prv pv it es\<close>: starting at the handle \<open>it\<close>, the next-sibling links
  run through exactly the edges \<open>es\<close> and end in null, and the previous-sibling link of each
  edge names the edge before it (\<open>pv\<close> for the first one; null at the head of a chain).
\<close>

primrec pred_chain ::
  "(edge \<Rightarrow> edge option) \<Rightarrow> (edge \<Rightarrow> edge option) \<Rightarrow> edge option \<Rightarrow> edge option \<Rightarrow> edge list \<Rightarrow> bool" where
  "pred_chain nxt prv pv it [] = (it = None)"
| "pred_chain nxt prv pv it (e # es) =
     (it = Some e \<and> prv e = pv \<and> pred_chain nxt prv (Some e) (nxt e) es)"

text \<open>
  The invariant of section 3 of the specification: the chain rooted at each block holds,
  without repetition, exactly the edges whose target field is that block.
\<close>

definition chains_ok :: "SILState \<Rightarrow> bool" where
  "chains_ok s =
     (\<forall>B. \<exists>es. pred_chain (Next s) (Prev s) None (PredList s B) es
               \<and> distinct es \<and> set es = incoming s B)"

text \<open>The same with one edge taken out of every chain: the state between unlinking and linking.\<close>

definition chains_without :: "SILState \<Rightarrow> edge \<Rightarrow> bool" where
  "chains_without s e =
     (\<forall>B. \<exists>es. pred_chain (Next s) (Prev s) None (PredList s B) es
               \<and> distinct es \<and> set es = incoming s B - {e})"

section \<open>A concrete function\<close>

text \<open>
  Three blocks. Block 0 holds two ordinary instructions and a two-way branch (edges 0 and
  1) and has two PHI arguments; block 1 holds one instruction and a one-way branch (edge
  2); block 2 is still empty. Instruction 5 is a detached one-way branch (edge 3). No edge
  is bound yet.
\<close>

definition exampleState :: SILState where
  "exampleState =
     \<lparr>Blocks = [0, 1, 2],
      InstList = (\<lambda>_. [])(0 := [0, 1, 2], 1 := [3, 4]),
      ArgumentList = (\<lambda>_. [])(0 := [SILPHIArgument 10 0 None, SILPHIArgument 11 0 None]),
      PredList = (\<lambda>_. None),
      ParentBB = (\<lambda>_. None)(0 := Some 0, 1 := Some 0, 2 := Some 0, 3 := Some 1, 4 := Some 1),
      InstKind = (\<lambda>_. NonTerminator)(2 := TermInst [0, 1], 4 := TermInst [2], 5 := TermInst [3]),
      DroppedRefs = [],
      ContainingInst = (\<lambda>_. 5)(0 := 2, 1 := 2, 2 := 4),
      SuccessorBlock = (\<lambda>_. None),
      Next = (\<lambda>_. None),
      Prev = (\<lambda>_. None)\<rparr>"

text \<open>
  The same function after binding three edges: both edges of block 0's branch target block
  1, and the edge of block 1's branch targets block 0.
\<close>

definition linkedState :: SILState where
  "linkedState =
     setSuccessor (setSuccessor (setSuccessor exampleState 0 (Some 1)) 1 (Some 1)) 2 (Some 0)"

text \<open>
  The unlinked function after binding edge 3 to block 2. Edge 3 belongs to instruction 5, a
  branch that is in no block (removed from its block, or not yet inserted).
\<close>

definition detachedState :: SILState where
  "detachedState = setSuccessor exampleState 3 (Some 2)"

text \<open>
  The unlinked function while block 2 is under construction: it holds the ordinary
  instruction 6 and no terminator yet.
\<close>

definition buildingState :: SILState where
  "buildingState =
     exampleState\<lparr>InstList := (InstList exampleState)(2 := [6]),
                  ParentBB := (ParentBB exampleState)(6 := Some 2)\<rparr>"

section \<open>Argument list: index stability\<close>

lemma nth_insert_at:
  assumes "j \<le> length xs"
  shows "(take j xs @ a # drop j xs) ! j = a"
    and "i < j \<Longrightarrow> (take j xs @ a # drop j xs) ! i = xs ! i"
    and "j \<le> i \<Longrightarrow> i < length xs \<Longrightarrow> (take j xs @ a # drop j xs) ! Suc i = xs ! i"
    and "length (take j xs @ a # drop j xs) = Suc (length xs)"
proof -
  from assms have len: "length (take j xs) = j" by simp
  show "(take j xs @ a # drop j xs) ! j = a"
    using len by (simp add: nth_append)
  show "i < j \<Longrightarrow> (take j xs @ a # drop j xs) ! i = xs ! i"
    using len by (simp add: nth_append)
  show "j \<le> i \<Longrightarrow> i < length xs \<Longrightarrow> (take j xs @ a # drop j xs) ! Suc i = xs ! i"
  proof -
    assume ji: "j \<le> i" and il: "i < length xs"
    have "(take j xs @ a # drop j xs) ! Suc i = (a # drop j xs) ! (Suc i - j)"
      using len ji by (simp add: nth_append)
    also have "Suc i - j = Suc (i - j)" using ji by simp
    also have "(a # drop j xs) ! Suc (i - j) = xs ! i" using ji il by simp
    finally show ?thesis .
  qed
  show "length (take j xs @ a # drop j xs) = Suc (length xs)"
    using assms by simp
qed

lemma nth_erase_at:
  assumes "j < length xs"
  shows "i < j \<Longrightarrow> (take j xs @ drop (Suc j) xs) ! i = xs ! i"
    and "j \<le> i \<Longrightarrow> Suc i < length xs \<Longrightarrow> (take j xs @ drop (Suc j) xs) ! i = xs ! Suc i"
    and "Suc (length (take j xs @ drop (Suc j) xs)) = length xs"
proof -
  from assms have len: "length (take j xs) = j" by simp
  show "i < j \<Longrightarrow> (take j xs @ drop (Suc j) xs) ! i = xs ! i"
    using len by (simp add: nth_append)
  show "j \<le> i \<Longrightarrow> Suc i < length xs \<Longrightarrow> (take j xs @ drop (Suc j) xs) ! i = xs ! Suc i"
    using len by (simp add: nth_append)
  show "Suc (length (take j xs @ drop (Suc j) xs)) = length xs"
    using assms by simp
qed

lemma insertPHIArgument_shift:
  assumes "j \<le> getNumArguments s B"
  shows "\<exists>s'. insertPHIArgument s B j Ty K D = Inr (SILPHIArgument Ty K D, s')
           \<and> getNumArguments s' B = Suc (getNumArguments s B)
           \<and> ArgumentList s' B ! j = SILPHIArgument Ty K D
           \<and> (\<forall>i<j. ArgumentList s' B ! i = ArgumentList s B ! i)
           \<and> (\<forall>i. j \<le> i \<and> i < getNumArguments s B
                  \<longrightarrow> ArgumentList s' B ! Suc i = ArgumentList s B ! i)"
  using assms nth_insert_at [where j = j and xs = "ArgumentList s B" and a = "SILPHIArgument Ty K D"]
  by (simp add: insertPHIArgument_def insertPHIArgument_Pos_def advance_arg_def
      insertArgument_def getNumArguments_def)

lemma insertFunctionArgument_shift:
  assumes "j \<le> getNumArguments s B"
  shows "\<exists>s'. insertFunctionArgument s B j Ty K D = Inr (SILFunctionArgument Ty K D, s')
           \<and> getNumArguments s' B = Suc (getNumArguments s B)
           \<and> ArgumentList s' B ! j = SILFunctionArgument Ty K D
           \<and> (\<forall>i<j. ArgumentList s' B ! i = ArgumentList s B ! i)
           \<and> (\<forall>i. j \<le> i \<and> i < getNumArguments s B
                  \<longrightarrow> ArgumentList s' B ! Suc i = ArgumentList s B ! i)"
  using assms nth_insert_at [where j = j and xs = "ArgumentList s B" and a = "SILFunctionArgument Ty K D"]
  by (simp add: insertFunctionArgument_def insertFunctionArgument_Pos_def advance_arg_def
      insertArgument_def getNumArguments_def)

lemma eraseArgument_shift:
  assumes "j < getNumArguments s B"
  shows "\<exists>s'. eraseArgument s B (int j) = Inr s'
           \<and> Suc (getNumArguments s' B) = getNumArguments s B
           \<and> (\<forall>i<j. ArgumentList s' B ! i = ArgumentList s B ! i)
           \<and> (\<forall>i. j \<le> i \<and> Suc i < getNumArguments s B
                  \<longrightarrow> ArgumentList s' B ! i = ArgumentList s B ! Suc i)"
  using assms nth_erase_at [where j = j and xs = "ArgumentList s B"]
  by (simp add: eraseArgument_def getNumArguments_def)

lemma replacePHIArgument_frame:
  assumes "j < getNumArguments s B"
  shows "\<exists>s'. replacePHIArgument s B j Ty K D = Inr (SILPHIArgument Ty K D, s')
           \<and> getNumArguments s' B = getNumArguments s B
           \<and> ArgumentList s' B ! j = SILPHIArgument Ty K D
           \<and> (\<forall>i. i \<noteq> j \<longrightarrow> ArgumentList s' B ! i = ArgumentList s B ! i)"
  using assms by (simp add: replacePHIArgument_def getNumArguments_def)

text \<open>
  Claim C4. On a block with \<open>n\<close> parameters, inserting a PHI or function argument at
  index \<open>j \<le> n\<close> puts the new parameter at \<open>j\<close>, keeps every parameter below \<open>j\<close>
  and moves every parameter at an index \<open>\<ge> j\<close> one up; erasing at \<open>j < n\<close> keeps every
  parameter below \<open>j\<close> and moves every later one down by one; replacing at \<open>j < n\<close>
  puts the new parameter at \<open>j\<close> and leaves every other index unchanged.
\<close>

theorem argument_index_stability:
  "(j \<le> getNumArguments s B \<longrightarrow>
      (\<exists>s'. insertPHIArgument s B j Ty K D = Inr (SILPHIArgument Ty K D, s')
           \<and> getNumArguments s' B = Suc (getNumArguments s B)
           \<and> ArgumentList s' B ! j = SILPHIArgument Ty K D
           \<and> (\<forall>i<j. ArgumentList s' B ! i = ArgumentList s B ! i)
           \<and> (\<forall>i. j \<le> i \<and> i < getNumArguments s B
                  \<longrightarrow> ArgumentList s' B ! Suc i = ArgumentList s B ! i))
    \<and> (\<exists>s'. insertFunctionArgument s B j Ty K D = Inr (SILFunctionArgument Ty K D, s')
           \<and> getNumArguments s' B = Suc (getNumArguments s B)
           \<and> ArgumentList s' B ! j = SILFunctionArgument Ty K D
           \<and> (\<forall>i<j. ArgumentList s' B ! i = ArgumentList s B ! i)
           \<and> (\<forall>i. j \<le> i \<and> i < getNumArguments s B
                  \<longrightarrow> ArgumentList s' B ! Suc i = ArgumentList s B ! i)))
 \<and> (j < getNumArguments s B \<longrightarrow>
      (\<exists>s'. eraseArgument s B (int j) = Inr s'
           \<and> Suc (getNumArguments s' B) = getNumArguments s B
           \<and> (\<forall>i<j. ArgumentList s' B ! i = ArgumentList s B ! i)
           \<and> (\<forall>i. j \<le> i \<and> Suc i < getNumArguments s B
                  \<longrightarrow> ArgumentList s' B ! i = ArgumentList s B ! Suc i))
    \<and> (\<exists>s'. replacePHIArgument s B j Ty K D = Inr (SILPHIArgument Ty K D, s')
           \<and> getNumArguments s' B = getNumArguments s B
           \<and> ArgumentList s' B ! j = SILPHIArgument Ty K D
           \<and> (\<forall>i. i \<noteq> j \<longrightarrow> ArgumentList s' B ! i = ArgumentList s B ! i)))"
  using insertPHIArgument_shift [of j s B Ty K D]
    insertFunctionArgument_shift [of j s B Ty K D]
    eraseArgument_shift [of j s B]
    replacePHIArgument_frame [of j s B Ty K D]
  by blast

theorem argument_index_stability_witness:
  "(1::nat) \<le> getNumArguments exampleState 0 \<and> (1::nat) < getNumArguments exampleState 0
   \<and> (\<exists>s'. insertPHIArgument exampleState 0 1 7 0 None = Inr (SILPHIArgument 7 0 None, s')
          \<and> ArgumentList s' 0 ! 0 = SILPHIArgument 10 0 None
          \<and> ArgumentList s' 0 ! 1 = SILPHIArgument 7 0 None
          \<and> ArgumentList s' 0 ! 2 = SILPHIArgument 11 0 None)
   \<and> (\<exists>s'. eraseArgument exampleState 0 1 = Inr s'
          \<and> ArgumentList s' 0 ! 0 = SILPHIArgument 10 0 None)
   \<and> (\<exists>s'. replacePHIArgument exampleState 0 1 7 0 None = Inr (SILPHIArgument 7 0 None, s')
          \<and> ArgumentList s' 0 ! 0 = SILPHIArgument 10 0 None
          \<and> ArgumentList s' 0 ! 1 = SILPHIArgument 7 0 None)"
proof -
  have n: "getNumArguments exampleState 0 = 2"
    by (simp add: getNumArguments_def exampleState_def)
  have args: "ArgumentList exampleState 0 = [SILPHIArgument 10 0 None, SILPHIArgument 11 0 None]"
    by (simp add: exampleState_def)
  note T = argument_index_stability [of 1 exampleState 0 7 0 None]
  from T n obtain s1 where
    s1: "insertPHIArgument exampleState 0 1 7 0 None = Inr (SILPHIArgument 7 0 None, s1)"
      "ArgumentList s1 0 ! 1 = SILPHIArgument 7 0 None"
      "\<forall>i<1. ArgumentList s1 0 ! i = ArgumentList exampleState 0 ! i"
      "\<forall>i. 1 \<le> i \<and> i < 2 \<longrightarrow> ArgumentList s1 0 ! Suc i = ArgumentList exampleState 0 ! i"
    by auto
  from s1(3) have s1a: "ArgumentList s1 0 ! 0 = SILPHIArgument 10 0 None"
    by (simp add: args)
  from s1(4) have "ArgumentList s1 0 ! Suc 1 = ArgumentList exampleState 0 ! 1"
    by simp
  then have s1b: "ArgumentList s1 0 ! 2 = SILPHIArgument 11 0 None"
    by (simp add: args numeral_2_eq_2)
  from T n obtain s2 where
    s2: "eraseArgument exampleState 0 (int 1) = Inr s2"
      "\<forall>i<1. ArgumentList s2 0 ! i = ArgumentList exampleState 0 ! i"
    by auto
  from s2(2) have s2a: "ArgumentList s2 0 ! 0 = SILPHIArgument 10 0 None"
    by (simp add: args)
  from T n obtain s3 where
    s3: "replacePHIArgument exampleState 0 1 7 0 None = Inr (SILPHIArgument 7 0 None, s3)"
      "ArgumentList s3 0 ! 1 = SILPHIArgument 7 0 None"
      "\<forall>i. i \<noteq> 1 \<longrightarrow> ArgumentList s3 0 ! i = ArgumentList exampleState 0 ! i"
    by auto
  from s3(3) have s3a: "ArgumentList s3 0 ! 0 = SILPHIArgument 10 0 None"
    by (simp add: args)
  from s2(1) have s2e: "eraseArgument exampleState 0 1 = Inr s2" by simp
  show ?thesis
    using n s1(1,2) s1a s1b s2e s2a s3(1,2) s3a by simp
qed

section \<open>Facts about the concrete function\<close>

lemma exampleState_args:
  "ArgumentList exampleState 0 = [SILPHIArgument 10 0 None, SILPHIArgument 11 0 None]"
  by (simp add: exampleState_def)

lemma exampleState_insts:
  "InstList exampleState 0 = [0, 1, 2]" "InstList exampleState 1 = [3, 4]"
  "InstList exampleState 2 = []" "InstList exampleState (Suc 0) = [3, 4]"
  by (simp_all add: exampleState_def)

lemma exampleState_kinds:
  "InstKind exampleState 2 = TermInst [0, 1]" "InstKind exampleState 4 = TermInst [2]"
  "InstKind exampleState 0 = NonTerminator" "InstKind exampleState 1 = NonTerminator"
  "InstKind exampleState 3 = NonTerminator" "InstKind exampleState (Suc 0) = NonTerminator"
  by (simp_all add: exampleState_def)

section \<open>Argument list: out-of-range positions\<close>

text \<open>
  Claim C6, as stated, fails: on a block with two parameters,
  \<open>insertPHIArgument(3, ...)\<close> does not run into an assertion. The header advances the
  iterator and inserts without comparing the index with \<open>getNumArguments()\<close>.
\<close>

theorem out_of_range_insert_counterexample:
  "getNumArguments exampleState 0 = 2
   \<and> insertPHIArgument exampleState 0 3 7 0 None = Inl UndefinedBehavior
   \<and> insertPHIArgument exampleState 0 3 7 0 None \<noteq> Inl (AssertionFailed ArgIndexOutOfRange)"
  by (simp add: insertPHIArgument_def advance_arg_def getNumArguments_def exampleState_args)

text \<open>
  Claim C6, amended. \<open>insertPHIArgument(Index, ...)\<close> and
  \<open>insertFunctionArgument(Index, ...)\<close> with \<open>Index > getNumArguments()\<close> are unchecked:
  the iterator is advanced past the end of the vector, which is undefined behaviour and not
  an assertion failure. \<open>eraseArgument(Index)\<close> with \<open>Index\<close> outside
  \<open>[0, getNumArguments())\<close> is a contract violation that fails.
\<close>

theorem out_of_range_argument_index:
  "(getNumArguments s B < Index \<longrightarrow>
      insertPHIArgument s B Index Ty K D = Inl UndefinedBehavior
    \<and> insertFunctionArgument s B Index Ty K D = Inl UndefinedBehavior)
 \<and> (I < 0 \<or> int (getNumArguments s B) \<le> I \<longrightarrow>
      eraseArgument s B I = Inl (AssertionFailed ArgIndexOutOfRange))"
  by (auto simp add: insertPHIArgument_def insertFunctionArgument_def advance_arg_def
      eraseArgument_def getNumArguments_def)

theorem out_of_range_argument_index_witness:
  "getNumArguments exampleState 0 < 3
   \<and> insertPHIArgument exampleState 0 3 7 0 None = Inl UndefinedBehavior
   \<and> insertFunctionArgument exampleState 0 3 7 0 None = Inl UndefinedBehavior
   \<and> int (getNumArguments exampleState 0) \<le> 2
   \<and> eraseArgument exampleState 0 2 = Inl (AssertionFailed ArgIndexOutOfRange)"
proof -
  have n: "getNumArguments exampleState 0 = 2"
    by (simp add: getNumArguments_def exampleState_args)
  show ?thesis
    using out_of_range_argument_index [of exampleState 0 3 7 0 None 2] n by simp
qed

section \<open>Terminator access\<close>

text \<open>
  Claim C5. On a block whose instruction list is non-empty and ends in a terminator,
  \<open>getTerminator()\<close> returns that last instruction (neither assertion fails). On a block
  with an empty instruction list, \<open>getTerminator()\<close> fails its assertion and \<open>back()\<close>
  fails in the list's dereference check; neither returns a value.
\<close>

theorem getTerminator_contract:
  "(InstList s B \<noteq> [] \<and> (\<exists>es. InstKind s (last (InstList s B)) = TermInst es) \<longrightarrow>
      getTerminator s B = Inr (last (InstList s B)))
 \<and> (InstList s B = [] \<longrightarrow>
      getTerminator s B = Inl (AssertionFailed MalformedBlock)
    \<and> back_inst s B = Inl (AssertionFailed DerefSentinel))"
  by (auto simp add: getTerminator_def back_inst_def cast_TermInst_def)

theorem getTerminator_contract_witness:
  "InstList exampleState 0 \<noteq> [] \<and> InstKind exampleState (last (InstList exampleState 0)) = TermInst [0, 1]
   \<and> getTerminator exampleState 0 = Inr 2
   \<and> InstList exampleState 2 = []
   \<and> getTerminator exampleState 2 = Inl (AssertionFailed MalformedBlock)
   \<and> back_inst exampleState 2 = Inl (AssertionFailed DerefSentinel)"
  using getTerminator_contract [of exampleState 0] getTerminator_contract [of exampleState 2]
  by (simp add: exampleState_insts exampleState_kinds)

section \<open>dropAllReferences\<close>

lemma fold_inst_dropAllReferences:
  "fold (\<lambda>I t. inst_dropAllReferences t I) Is s = s\<lparr>DroppedRefs := DroppedRefs s @ Is\<rparr>"
  by (induction Is arbitrary: s) (simp_all add: inst_dropAllReferences_def)

lemma dropAllReferences_eq:
  "dropAllReferences s B =
     s\<lparr>ArgumentList := (ArgumentList s)(B := []), DroppedRefs := DroppedRefs s @ InstList s B\<rparr>"
  by (simp add: dropAllReferences_def dropAllArguments_def fold_inst_dropAllReferences)

text \<open>
  Claim C8. After \<open>dropAllReferences()\<close> the block's argument list is empty,
  \<open>dropAllReferences\<close> has been invoked on every instruction of the block (in order), the
  instruction lists are exactly as before, and the successor edges, the predecessor chains
  and the queries built on them are unchanged.
\<close>

theorem dropAllReferences_frame:
  "ArgumentList (dropAllReferences s B) B = []
   \<and> DroppedRefs (dropAllReferences s B) = DroppedRefs s @ InstList s B
   \<and> InstList (dropAllReferences s B) = InstList s
   \<and> InstKind (dropAllReferences s B) = InstKind s
   \<and> ParentBB (dropAllReferences s B) = ParentBB s
   \<and> Blocks (dropAllReferences s B) = Blocks s
   \<and> ContainingInst (dropAllReferences s B) = ContainingInst s
   \<and> SuccessorBlock (dropAllReferences s B) = SuccessorBlock s
   \<and> Next (dropAllReferences s B) = Next s
   \<and> Prev (dropAllReferences s B) = Prev s
   \<and> PredList (dropAllReferences s B) = PredList s
   \<and> getSuccessors (dropAllReferences s B) B = getSuccessors s B
   \<and> getSuccessorBlocks (dropAllReferences s B) B = getSuccessorBlocks s B
   \<and> getPredecessorBlocks (dropAllReferences s B) B = getPredecessorBlocks s B"
proof -
  let ?s' = "dropAllReferences s B"
  have fields: "InstList ?s' = InstList s" "InstKind ?s' = InstKind s"
    "ParentBB ?s' = ParentBB s" "Blocks ?s' = Blocks s"
    "ContainingInst ?s' = ContainingInst s" "SuccessorBlock ?s' = SuccessorBlock s"
    "Next ?s' = Next s" "Prev ?s' = Prev s" "PredList ?s' = PredList s"
    by (simp_all add: dropAllReferences_eq)
  have args: "ArgumentList ?s' B = []" and log: "DroppedRefs ?s' = DroppedRefs s @ InstList s B"
    by (simp_all add: dropAllReferences_eq)
  have trm: "getTerminator ?s' B = getTerminator s B"
    by (simp add: getTerminator_def back_inst_def cast_TermInst_def fields)
  have "TermInst_getSuccessors ?s' = TermInst_getSuccessors s"
    by (rule ext) (simp add: TermInst_getSuccessors_def fields)
  then have succs: "getSuccessors ?s' B = getSuccessors s B"
    by (simp add: getSuccessors_def trm split: sum.split)
  have blocks: "getSuccessorBlocks ?s' B = getSuccessorBlocks s B"
    by (simp add: getSuccessorBlocks_def succs fields split: sum.split)
  have "pred_deref ?s' = pred_deref s"
    by (rule ext) (simp add: pred_deref_def fields)
  then have preds: "getPredecessorBlocks ?s' B = getPredecessorBlocks s B"
    by (simp add: getPredecessorBlocks_def pred_begin_def fields)
  show ?thesis
    using fields args log succs blocks preds by simp
qed

section \<open>spliceAtEnd\<close>

lemma transferNodesFromList_moved:
  "I \<in> set moved \<Longrightarrow> transferNodesFromList P moved parent I = Some P"
  unfolding transferNodesFromList_def
  by (induction moved arbitrary: parent rule: rev_induct) auto

lemma transferNodesFromList_other:
  "I \<notin> set moved \<Longrightarrow> transferNodesFromList P moved parent I = parent I"
  unfolding transferNodesFromList_def
  by (induction moved arbitrary: parent) auto

text \<open>
  Claim C7. For distinct blocks \<open>B\<close> and \<open>Other\<close>, after \<open>B.spliceAtEnd(Other)\<close> the
  instruction list of \<open>B\<close> is its old list followed by the old list of \<open>Other\<close>, the list
  of \<open>Other\<close> is empty, and every moved instruction's containing block is \<open>B\<close>.
\<close>

theorem spliceAtEnd_moves_all:
  assumes "B \<noteq> Other"
  shows "InstList (spliceAtEnd s B Other) B = InstList s B @ InstList s Other
       \<and> InstList (spliceAtEnd s B Other) Other = []
       \<and> (\<forall>I \<in> set (InstList s Other). ParentBB (spliceAtEnd s B Other) I = Some B)"
  using assms by (simp add: spliceAtEnd_def transferNodesFromList_moved)

theorem spliceAtEnd_moves_all_witness:
  "(0::nat) \<noteq> 1
   \<and> InstList (spliceAtEnd exampleState 0 1) 0 = [0, 1, 2, 3, 4]
   \<and> InstList (spliceAtEnd exampleState 0 1) 1 = []
   \<and> ParentBB (spliceAtEnd exampleState 0 1) 3 = Some 0
   \<and> ParentBB (spliceAtEnd exampleState 0 1) 4 = Some 0"
  using spliceAtEnd_moves_all [of 0 1 exampleState]
  by (simp add: exampleState_insts)

section \<open>split\<close>

lemma fold_max_ge: "a \<le> fold max Xs (a::nat)"
  by (induction Xs arbitrary: a) (auto intro: order_trans [OF max.cobounded2])

lemma fold_max_bound: "X \<in> set Xs \<Longrightarrow> X \<le> fold max Xs (a::nat)"
proof (induction Xs arbitrary: a)
  case Nil
  then show ?case by simp
next
  case (Cons Y Ys)
  show ?case
  proof (cases "X = Y")
    case True
    have "Y \<le> max Y a" by simp
    also have "max Y a \<le> fold max Ys (max Y a)" by (rule fold_max_ge)
    finally show ?thesis using True by simp
  next
    case False
    with Cons.prems have "X \<in> set Ys" by simp
    then show ?thesis using Cons.IH by simp
  qed
qed

lemma newBlock_fresh: "newBlock s \<notin> set (Blocks s)"
proof
  assume "newBlock s \<in> set (Blocks s)"
  then have "newBlock s \<le> fold max (Blocks s) 0" by (rule fold_max_bound)
  then show False by (simp add: newBlock_def)
qed

lemma insertAfter_decomp:
  "B \<in> set Xs \<Longrightarrow>
     \<exists>pre post. Xs = pre @ B # post \<and> B \<notin> set pre \<and> insertAfter B New Xs = pre @ B # New # post"
proof (induction Xs)
  case Nil
  then show ?case by simp
next
  case (Cons X Xs)
  show ?case
  proof (cases "X = B")
    case True
    then have "X # Xs = [] @ B # Xs \<and> B \<notin> set [] \<and> insertAfter B New (X # Xs) = [] @ B # New # Xs"
      by simp
    then show ?thesis by blast
  next
    case False
    with Cons.prems have "B \<in> set Xs" by simp
    with Cons.IH obtain pre post where
      d: "Xs = pre @ B # post" "B \<notin> set pre" "insertAfter B New Xs = pre @ B # New # post"
      by blast
    from False d have "X # Xs = (X # pre) @ B # post \<and> B \<notin> set (X # pre)
        \<and> insertAfter B New (X # Xs) = (X # pre) @ B # New # post"
      by simp
    then show ?thesis by blast
  qed
qed

lemma split_result:
  assumes "B \<in> set (Blocks s)" and "k \<le> length (InstList s B)"
  shows "\<exists>s'. split s B k = Inr (newBlock s, s')
           \<and> InstList s' B = take k (InstList s B)
           \<and> InstList s' (newBlock s) = drop k (InstList s B)
           \<and> Blocks s' = insertAfter B (newBlock s) (Blocks s)
           \<and> InstKind s' = InstKind s"
proof -
  from assms(1) newBlock_fresh [of s] have "B \<noteq> newBlock s" by blast
  with assms show ?thesis by (simp add: split_def)
qed

lemma no_terminator_before_last:
  assumes "k < length Is" and "\<forall>I \<in> set (butlast Is). kind I = NonTerminator"
  shows "\<forall>I \<in> set (take k Is). kind I = NonTerminator"
proof -
  from assms(1) have "take k Is = take k (butlast Is)"
    by (simp add: take_butlast)
  then have "set (take k Is) \<subseteq> set (butlast Is)"
    by (simp add: set_take_subset)
  with assms(2) show ?thesis by blast
qed

text \<open>
  Claim C1, as stated, fails at the split point \<open>end()\<close>: block 1 is \<open>[3, 4]\<close> with the
  terminator 4 last; splitting at position 2 moves nothing, the new block is empty and the
  original block still ends in its terminator.
\<close>

theorem split_at_end_keeps_terminator:
  "(case split exampleState 1 2 of
      Inl f \<Rightarrow> False
    | Inr (New, s') \<Rightarrow>
        InstList exampleState 1 = [3, 4] \<and> InstList s' 1 = [3, 4] \<and> InstList s' New = []
        \<and> InstKind s' (last (InstList s' 1)) = TermInst [2])"
  by (simp add: split_def exampleState_def newBlock_def)

text \<open>
  Claim C1, amended. For a block \<open>B\<close> of the function and a split point \<open>k\<close> (a
  position \<open>0..size\<close>), \<open>split(k)\<close> returns a new block; the original block keeps the
  instructions before \<open>k\<close>, the new block holds the instructions from \<open>k\<close> on in the
  original order, their concatenation is the original sequence, and the new block
  immediately follows \<open>B\<close> in the block order. \<open>B\<close> is left without a terminator when
  \<open>k\<close> is the position of an instruction and no instruction of \<open>B\<close> before the last is
  a terminator.
\<close>

theorem split_round_trip:
  "B \<in> set (Blocks s) \<and> k \<le> length (InstList s B) \<longrightarrow>
     (\<exists>New s'. split s B k = Inr (New, s')
        \<and> New \<notin> set (Blocks s)
        \<and> InstList s' B = take k (InstList s B)
        \<and> InstList s' New = drop k (InstList s B)
        \<and> InstList s' B @ InstList s' New = InstList s B
        \<and> (\<exists>pre post. Blocks s = pre @ B # post \<and> Blocks s' = pre @ B # New # post)
        \<and> (k < length (InstList s B)
             \<and> (\<forall>I \<in> set (butlast (InstList s B)). InstKind s I = NonTerminator)
            \<longrightarrow> (\<forall>I \<in> set (InstList s' B). InstKind s' I = NonTerminator)))"
proof
  assume pre: "B \<in> set (Blocks s) \<and> k \<le> length (InstList s B)"
  then obtain s' where
    s': "split s B k = Inr (newBlock s, s')"
      "InstList s' B = take k (InstList s B)"
      "InstList s' (newBlock s) = drop k (InstList s B)"
      "Blocks s' = insertAfter B (newBlock s) (Blocks s)"
      "InstKind s' = InstKind s"
    using split_result by blast
  from pre insertAfter_decomp [of B "Blocks s" "newBlock s"] s'(4)
  have order: "\<exists>pre post. Blocks s = pre @ B # post \<and> Blocks s' = pre @ B # newBlock s # post"
    by auto
  have cat: "InstList s' B @ InstList s' (newBlock s) = InstList s B"
    using s'(2,3) by simp
  have noterm: "k < length (InstList s B)
             \<and> (\<forall>I \<in> set (butlast (InstList s B)). InstKind s I = NonTerminator)
            \<longrightarrow> (\<forall>I \<in> set (InstList s' B). InstKind s' I = NonTerminator)"
    using no_terminator_before_last [of k "InstList s B" "InstKind s"] s'(2,5) by simp
  from s'(1,2,3) order cat noterm newBlock_fresh [of s]
  show "\<exists>New s'. split s B k = Inr (New, s')
        \<and> New \<notin> set (Blocks s)
        \<and> InstList s' B = take k (InstList s B)
        \<and> InstList s' New = drop k (InstList s B)
        \<and> InstList s' B @ InstList s' New = InstList s B
        \<and> (\<exists>pre post. Blocks s = pre @ B # post \<and> Blocks s' = pre @ B # New # post)
        \<and> (k < length (InstList s B)
             \<and> (\<forall>I \<in> set (butlast (InstList s B)). InstKind s I = NonTerminator)
            \<longrightarrow> (\<forall>I \<in> set (InstList s' B). InstKind s' I = NonTerminator))"
    by blast
qed

theorem split_round_trip_witness:
  "(0::nat) \<in> set (Blocks exampleState) \<and> (2::nat) \<le> length (InstList exampleState 0)
   \<and> (\<exists>New s'. split exampleState 0 2 = Inr (New, s')
         \<and> New \<notin> set (Blocks exampleState)
         \<and> InstList s' 0 = [0, 1]
         \<and> InstList s' New = [2]
         \<and> InstList s' 0 @ InstList s' New = [0, 1, 2]
         \<and> (\<exists>pre post. Blocks exampleState = pre @ 0 # post \<and> Blocks s' = pre @ 0 # New # post)
         \<and> InstKind s' 0 = NonTerminator \<and> InstKind s' 1 = NonTerminator)"
proof -
  have h: "(0::nat) \<in> set (Blocks exampleState) \<and> (2::nat) \<le> length (InstList exampleState 0)"
    by (simp add: exampleState_def)
  have k: "(2::nat) < length (InstList exampleState 0)
        \<and> (\<forall>I \<in> set (butlast (InstList exampleState 0)). InstKind exampleState I = NonTerminator)"
    by (simp add: exampleState_insts exampleState_kinds)
  from split_round_trip [of 0 exampleState 2] h obtain New s' where
    r: "split exampleState 0 2 = Inr (New, s')"
      "New \<notin> set (Blocks exampleState)"
      "InstList s' 0 = take 2 (InstList exampleState 0)"
      "InstList s' New = drop 2 (InstList exampleState 0)"
      "InstList s' 0 @ InstList s' New = InstList exampleState 0"
      "\<exists>pre post. Blocks exampleState = pre @ 0 # post \<and> Blocks s' = pre @ 0 # New # post"
      "(2::nat) < length (InstList exampleState 0)
        \<and> (\<forall>I \<in> set (butlast (InstList exampleState 0)). InstKind exampleState I = NonTerminator)
       \<longrightarrow> (\<forall>I \<in> set (InstList s' 0). InstKind s' I = NonTerminator)"
    by blast
  from r(7) k have nt: "\<forall>I \<in> set (InstList s' 0). InstKind s' I = NonTerminator" by blast
  from r(3) have l0: "InstList s' 0 = [0, 1]" by (simp add: exampleState_insts)
  from nt l0 have "InstKind s' 0 = NonTerminator \<and> InstKind s' 1 = NonTerminator" by simp
  with h r l0 show ?thesis by (auto simp add: exampleState_insts)
qed

section \<open>Chains under relinking\<close>

lemma pred_chain_frame:
  "(\<forall>x \<in> set es. nxt' x = nxt x \<and> prv' x = prv x) \<Longrightarrow>
     pred_chain nxt' prv' pv it es = pred_chain nxt prv pv it es"
  by (induction es arbitrary: pv it) auto

lemma pred_chain_unique:
  "pred_chain nxt prv pv it es \<Longrightarrow> pred_chain nxt prv pv' it es' \<Longrightarrow> es = es'"
proof (induction es arbitrary: pv pv' it es')
  case Nil
  then show ?case by (cases es') auto
next
  case (Cons e es)
  then show ?case by (cases es') auto
qed

lemma pred_chain_range:
  "pred_chain nxt prv pv it es \<Longrightarrow> pred_range nxt it = Some es"
proof (induction es arbitrary: pv it)
  case Nil
  then show ?case by (simp add: pred_range.simps)
next
  case (Cons e es)
  then have "it = Some e" and "pred_range nxt (nxt e) = Some es" by auto
  then show ?case by (subst pred_range.simps) simp
qed

lemma pred_chain_any_of:
  "pred_chain nxt prv pv it es \<Longrightarrow> pred_any_of nxt P it = Some (list_ex P es)"
proof (induction es arbitrary: pv it)
  case Nil
  then show ?case by (simp add: pred_any_of.simps)
next
  case (Cons e es)
  then have "it = Some e" and "pred_any_of nxt P (nxt e) = Some (list_ex P es)" by auto
  then show ?case by (subst pred_any_of.simps) simp
qed

lemma pred_chain_prev_of:
  "pred_chain nxt prv pv it (xs @ e # ys) \<Longrightarrow>
     prv e = (if xs = [] then pv else Some (last xs))"
  by (induction xs arbitrary: pv it) auto

lemma pred_chain_next_of:
  "pred_chain nxt prv pv it (xs @ e # ys) \<Longrightarrow>
     nxt e = (if ys = [] then None else Some (hd ys))"
proof (induction xs arbitrary: pv it)
  case Nil
  then show ?case by (cases ys) auto
next
  case (Cons x xs)
  then show ?case by auto
qed

lemma pred_chain_unlink:
  assumes "pred_chain nxt prv pv it (xs @ e # ys)"
    and "distinct (xs @ e # ys)"
    and "\<forall>p. pv = Some p \<longrightarrow> p \<notin> set (xs @ e # ys)"
  shows "pred_chain
           (case prv e of None \<Rightarrow> nxt | Some p \<Rightarrow> nxt(p := nxt e))
           (case nxt e of None \<Rightarrow> prv | Some n \<Rightarrow> prv(n := prv e))
           pv (if xs = [] then nxt e else it) (xs @ ys)"
  using assms
proof (induction xs arbitrary: pv it)
  case Nil
  let ?N = "case prv e of None \<Rightarrow> nxt | Some p \<Rightarrow> nxt(p := nxt e)"
  let ?P = "case nxt e of None \<Rightarrow> prv | Some n \<Rightarrow> prv(n := prv e)"
  from Nil.prems(1) have pe: "prv e = pv" and rest: "pred_chain nxt prv (Some e) (nxt e) ys"
    by auto
  show ?case
  proof (cases ys)
    case Nil
    with rest show ?thesis by simp
  next
    case (Cons n ys')
    with rest have ne: "nxt e = Some n" and pn: "prv n = Some e"
      and tl: "pred_chain nxt prv (Some n) (nxt n) ys'" by auto
    from Nil.prems(2) Cons have d: "n \<notin> set ys'" "e \<noteq> n" "e \<notin> set ys'" by auto
    from Nil.prems(3) Cons pe have out: "\<forall>p. prv e = Some p \<longrightarrow> p \<noteq> n \<and> p \<notin> set ys'" by auto
    have Nn: "?N n = nxt n" using out by (auto split: option.split)
    have Pn: "?P n = pv" using ne pe by simp
    have "\<forall>x \<in> set ys'. ?N x = nxt x \<and> ?P x = prv x"
      using out d ne by (auto split: option.split)
    then have "pred_chain ?N ?P (Some n) (nxt n) ys' = pred_chain nxt prv (Some n) (nxt n) ys'"
      by (rule pred_chain_frame)
    with tl have "pred_chain ?N ?P (Some n) (nxt n) ys'" by blast
    with Nn have "pred_chain ?N ?P (Some n) (?N n) ys'" by (simp only:)
    with Pn have "pred_chain ?N ?P pv (Some n) (n # ys')"
      unfolding pred_chain.simps by blast
    with ne Cons show ?thesis by (simp only: append_Nil if_True simp_thms)
  qed
next
  case (Cons x xs)
  let ?N = "case prv e of None \<Rightarrow> nxt | Some p \<Rightarrow> nxt(p := nxt e)"
  let ?P = "case nxt e of None \<Rightarrow> prv | Some n \<Rightarrow> prv(n := prv e)"
  from Cons.prems(1) have it: "it = Some x" and px: "prv x = pv"
    and rest: "pred_chain nxt prv (Some x) (nxt x) (xs @ e # ys)" by auto
  from Cons.prems(2) have dist: "distinct (xs @ e # ys)" and xnot: "x \<notin> set (xs @ e # ys)"
    by auto
  from xnot have out: "\<forall>p. Some x = Some p \<longrightarrow> p \<notin> set (xs @ e # ys)" by simp
  from Cons.IH [OF rest dist out]
  have ih: "pred_chain ?N ?P (Some x) (if xs = [] then nxt e else nxt x) (xs @ ys)" .
  have pe: "prv e = (if xs = [] then Some x else Some (last xs))"
    using pred_chain_prev_of [OF rest] .
  have ne: "nxt e = (if ys = [] then None else Some (hd ys))"
    using pred_chain_next_of [OF rest] .
  have Nx: "?N x = (if xs = [] then nxt e else nxt x)"
  proof (cases "xs = []")
    case True
    with pe show ?thesis by simp
  next
    case False
    then have "last xs \<in> set xs" by simp
    with xnot have "last xs \<noteq> x" by auto
    with pe False show ?thesis by simp
  qed
  have Px: "?P x = pv"
  proof (cases "ys = []")
    case True
    with ne px show ?thesis by simp
  next
    case False
    then have "hd ys \<in> set ys" by simp
    with xnot have "hd ys \<noteq> x" by auto
    with ne False px show ?thesis by simp
  qed
  from ih Nx Px it show ?case by simp
qed

section \<open>Retargeting preserves the chains\<close>

lemma unlink_edge_fields:
  assumes "SuccessorBlock s e = Some Old"
  shows "Next (unlink_edge s e) = (case Prev s e of None \<Rightarrow> Next s | Some p \<Rightarrow> (Next s)(p := Next s e))"
    and "Prev (unlink_edge s e) = (case Next s e of None \<Rightarrow> Prev s | Some n \<Rightarrow> (Prev s)(n := Prev s e))"
    and "PredList (unlink_edge s e) =
           (case Prev s e of None \<Rightarrow> (PredList s)(Old := Next s e) | Some p \<Rightarrow> PredList s)"
    and "SuccessorBlock (unlink_edge s e) = SuccessorBlock s"
  using assms by (simp_all add: unlink_edge_def Let_def split: option.split)

lemma link_edge_fields:
  shows "Next (link_edge s e (Some New)) = (Next s)(e := PredList s New)"
    and "Prev (link_edge s e (Some New)) =
           (case PredList s New of None \<Rightarrow> (Prev s)(e := None)
            | Some h \<Rightarrow> (Prev s)(e := None, h := Some e))"
    and "PredList (link_edge s e (Some New)) = (PredList s)(New := Some e)"
    and "SuccessorBlock (link_edge s e BB) = SuccessorBlock s"
  by (simp_all add: link_edge_def Let_def split: option.split)

lemma unlink_edge_chains:
  assumes ok: "chains_ok s"
  shows "chains_without (unlink_edge s e) e"
proof (cases "SuccessorBlock s e")
  case None
  then have same: "unlink_edge s e = s" by (simp add: unlink_edge_def)
  show ?thesis
    unfolding chains_without_def same
  proof
    fix B
    from ok obtain es where es: "pred_chain (Next s) (Prev s) None (PredList s B) es"
      "distinct es" "set es = incoming s B"
      unfolding chains_ok_def by blast
    from None have "e \<notin> incoming s B" by (simp add: incoming_def)
    with es show "\<exists>es. pred_chain (Next s) (Prev s) None (PredList s B) es
        \<and> distinct es \<and> set es = incoming s B - {e}"
      by auto
  qed
next
  case (Some Old)
  let ?s1 = "unlink_edge s e"
  let ?N = "case Prev s e of None \<Rightarrow> Next s | Some p \<Rightarrow> (Next s)(p := Next s e)"
  let ?P = "case Next s e of None \<Rightarrow> Prev s | Some n \<Rightarrow> (Prev s)(n := Prev s e)"
  note f = unlink_edge_fields [OF Some]
  from ok obtain eo where eo: "pred_chain (Next s) (Prev s) None (PredList s Old) eo"
    "distinct eo" "set eo = incoming s Old"
    unfolding chains_ok_def by blast
  from Some eo(3) have "e \<in> set eo" by (simp add: incoming_def)
  then obtain xs ys where sp: "eo = xs @ e # ys" by (auto dest: split_list)
  note ch = eo(1) [unfolded sp]
  have pe: "Prev s e = (if xs = [] then None else Some (last xs))"
    using pred_chain_prev_of [OF ch] .
  have ne: "Next s e = (if ys = [] then None else Some (hd ys))"
    using pred_chain_next_of [OF ch] .
  have inc: "incoming ?s1 = incoming s"
    by (rule ext) (simp add: incoming_def f(4))
  show ?thesis
    unfolding chains_without_def
  proof
    fix B
    show "\<exists>es. pred_chain (Next ?s1) (Prev ?s1) None (PredList ?s1 B) es
        \<and> distinct es \<and> set es = incoming ?s1 B - {e}"
    proof (cases "B = Old")
      case True
      have "pred_chain ?N ?P None (if xs = [] then Next s e else PredList s Old) (xs @ ys)"
        using pred_chain_unlink [OF ch] eo(2) sp by simp
      moreover have "PredList ?s1 Old = (if xs = [] then Next s e else PredList s Old)"
        using pe by (simp add: f(3))
      ultimately have c: "pred_chain (Next ?s1) (Prev ?s1) None (PredList ?s1 Old) (xs @ ys)"
        by (simp only: f(1,2))
      from eo(2) sp have d: "distinct (xs @ ys)" by simp
      from eo(2,3) sp have "set (xs @ ys) = incoming s Old - {e}" by auto
      with c d True inc show ?thesis by auto
    next
      case False
      from ok obtain es where es: "pred_chain (Next s) (Prev s) None (PredList s B) es"
        "distinct es" "set es = incoming s B"
        unfolding chains_ok_def by blast
      from False es(3) eo(3) have disj: "set es \<inter> set eo = {}"
        by (auto simp add: incoming_def)
      have "\<forall>x \<in> set es. ?N x = Next s x \<and> ?P x = Prev s x"
      proof
        fix x assume x: "x \<in> set es"
        with disj have xo: "x \<notin> set eo" by blast
        have "?N x = Next s x"
        proof (cases "xs = []")
          case True with pe show ?thesis by simp
        next
          case False
          then have "last xs \<in> set eo" using sp by simp
          with xo have "last xs \<noteq> x" by blast
          with pe False show ?thesis by simp
        qed
        moreover have "?P x = Prev s x"
        proof (cases "ys = []")
          case True with ne show ?thesis by simp
        next
          case False
          then have "hd ys \<in> set eo" using sp by simp
          with xo have "hd ys \<noteq> x" by blast
          with ne False show ?thesis by simp
        qed
        ultimately show "?N x = Next s x \<and> ?P x = Prev s x" ..
      qed
      then have "pred_chain ?N ?P None (PredList s B) es
          = pred_chain (Next s) (Prev s) None (PredList s B) es"
        by (rule pred_chain_frame)
      with es(1) have "pred_chain ?N ?P None (PredList s B) es" by blast
      moreover have "PredList ?s1 B = PredList s B"
        using False by (simp add: f(3) split: option.split)
      ultimately have c: "pred_chain (Next ?s1) (Prev ?s1) None (PredList ?s1 B) es"
        by (simp only: f(1,2))
      from False Some es(3) have "set es = incoming s B - {e}"
        by (auto simp add: incoming_def)
      with c es(2) inc show ?thesis by auto
    qed
  qed
qed


lemma link_edge_chains:
  assumes wo: "chains_without s e"
  shows "chains_ok ((link_edge s e BB)\<lparr>SuccessorBlock := (SuccessorBlock (link_edge s e BB))(e := BB)\<rparr>)"
proof (cases BB)
  case None
  then have same: "link_edge s e BB = s" by (simp add: link_edge_def)
  show ?thesis
    unfolding chains_ok_def same
  proof
    fix B
    let ?s2 = "s\<lparr>SuccessorBlock := (SuccessorBlock s)(e := BB)\<rparr>"
    from wo obtain es where es: "pred_chain (Next s) (Prev s) None (PredList s B) es"
      "distinct es" "set es = incoming s B - {e}"
      unfolding chains_without_def by blast
    from None have "incoming ?s2 B = incoming s B - {e}"
      by (auto simp add: incoming_def)
    with es show "\<exists>es. pred_chain (Next ?s2) (Prev ?s2) None (PredList ?s2 B) es
        \<and> distinct es \<and> set es = incoming ?s2 B"
      by auto
  qed
next
  case (Some New)
  let ?s1 = "link_edge s e BB"
  let ?s2 = "?s1\<lparr>SuccessorBlock := (SuccessorBlock ?s1)(e := BB)\<rparr>"
  let ?N = "(Next s)(e := PredList s New)"
  let ?P = "case PredList s New of None \<Rightarrow> (Prev s)(e := None)
            | Some h \<Rightarrow> (Prev s)(e := None, h := Some e)"
  note f = link_edge_fields(1-3) [where s = s and e = e and New = New]
    link_edge_fields(4) [where s = s and e = e and BB = BB]
  have N2: "Next ?s2 = ?N" and P2: "Prev ?s2 = ?P"
    and L2: "PredList ?s2 = (PredList s)(New := Some e)"
    using Some f(1,2,3) by simp_all
  from wo obtain en where en: "pred_chain (Next s) (Prev s) None (PredList s New) en"
    "distinct en" "set en = incoming s New - {e}"
    unfolding chains_without_def by blast
  have head: "\<forall>h. PredList s New = Some h \<longrightarrow> h \<in> set en"
    using en(1) by (cases en) auto
  have inc: "\<And>B. incoming ?s2 B = (if B = New then insert e (incoming s B) else incoming s B - {e})"
    using Some by (auto simp add: incoming_def link_edge_fields(4))
  show ?thesis
    unfolding chains_ok_def
  proof
    fix B
    show "\<exists>es. pred_chain (Next ?s2) (Prev ?s2) None (PredList ?s2 B) es
        \<and> distinct es \<and> set es = incoming ?s2 B"
    proof (cases "B = New")
      case True
      from en(3) have enot: "e \<notin> set en" by simp
      have tl: "pred_chain ?N ?P (Some e) (PredList s New) en"
      proof (cases en)
        case Nil
        with en(1) show ?thesis by simp
      next
        case (Cons h en')
        with en(1) have h: "PredList s New = Some h"
          and rest: "pred_chain (Next s) (Prev s) (Some h) (Next s h) en'" by auto
        from en(2) Cons enot have d: "h \<notin> set en'" "e \<notin> set en'" "h \<noteq> e" by auto
        have "\<forall>x \<in> set en'. ?N x = Next s x \<and> ?P x = Prev s x"
          using d h by auto
        then have "pred_chain ?N ?P (Some h) (Next s h) en'
            = pred_chain (Next s) (Prev s) (Some h) (Next s h) en'"
          by (rule pred_chain_frame)
        with rest have "pred_chain ?N ?P (Some h) (Next s h) en'" by blast
        moreover have "?N h = Next s h" using d by simp
        moreover have "?P h = Some e" using h by simp
        ultimately have "pred_chain ?N ?P (Some e) (Some h) (h # en')"
          unfolding pred_chain.simps by (simp only: simp_thms)
        with Cons h show ?thesis by (simp only:)
      qed
      have Pe: "?P e = None"
        using head enot by (auto split: option.split)
      have Ne: "?N e = PredList s New" by simp
      from tl Pe Ne have "pred_chain ?N ?P None (Some e) (e # en)"
        unfolding pred_chain.simps by (simp only: simp_thms)
      then have c: "pred_chain (Next ?s2) (Prev ?s2) None (PredList ?s2 New) (e # en)"
        by (simp only: N2 P2 L2 fun_upd_same)
      from en(2) enot have d: "distinct (e # en)" by simp
      from en(3) have se: "set (e # en) = insert e (incoming s New)" by auto
      have "incoming ?s2 New = insert e (incoming s New)" using inc [of New] by simp
      with se have "set (e # en) = incoming ?s2 New" by (simp only:)
      with c d have "pred_chain (Next ?s2) (Prev ?s2) None (PredList ?s2 New) (e # en)
          \<and> distinct (e # en) \<and> set (e # en) = incoming ?s2 New" by blast
      then show ?thesis unfolding True by (rule exI [where x = "e # en"])
    next
      case False
      from wo obtain es where es: "pred_chain (Next s) (Prev s) None (PredList s B) es"
        "distinct es" "set es = incoming s B - {e}"
        unfolding chains_without_def by blast
      from es(3) have tb: "\<And>x. x \<in> set es \<Longrightarrow> SuccessorBlock s x = Some B"
        by (simp add: incoming_def)
      from en(3) have tn: "\<And>x. x \<in> set en \<Longrightarrow> SuccessorBlock s x = Some New"
        by (simp add: incoming_def)
      have disj: "set es \<inter> set en = {}"
      proof (rule ccontr)
        assume "set es \<inter> set en \<noteq> {}"
        then obtain x where "x \<in> set es" "x \<in> set en" by blast
        then have "Some B = Some New" using tb [of x] tn [of x] by simp
        with False show False by simp
      qed
      from es(3) have enot: "e \<notin> set es" by simp
      have "\<forall>x \<in> set es. ?N x = Next s x \<and> ?P x = Prev s x"
      proof
        fix x assume x: "x \<in> set es"
        with enot have xe: "x \<noteq> e" by blast
        from x disj head have "\<forall>h. PredList s New = Some h \<longrightarrow> h \<noteq> x" by blast
        with xe show "?N x = Next s x \<and> ?P x = Prev s x"
          by (auto split: option.split)
      qed
      then have "pred_chain ?N ?P None (PredList s B) es
          = pred_chain (Next s) (Prev s) None (PredList s B) es"
        by (rule pred_chain_frame)
      with es(1) have "pred_chain ?N ?P None (PredList s B) es" by blast
      moreover have "PredList ?s2 B = PredList s B" using False by (simp add: L2)
      ultimately have c: "pred_chain (Next ?s2) (Prev ?s2) None (PredList ?s2 B) es"
        by (simp only: N2 P2)
      have "incoming ?s2 B = incoming s B - {e}" using inc [of B] False by simp
      with es(3) have "set es = incoming ?s2 B" by (simp only:)
      with c es(2) have "pred_chain (Next ?s2) (Prev ?s2) None (PredList ?s2 B) es
          \<and> distinct es \<and> set es = incoming ?s2 B" by blast
      then show ?thesis by (rule exI [where x = es])
    qed
  qed
qed

lemma setSuccessor_chains:
  assumes "chains_ok s"
  shows "chains_ok (setSuccessor s e BB)"
proof -
  have "chains_without (unlink_edge s e) e"
    using assms by (rule unlink_edge_chains)
  then have "chains_ok ((link_edge (unlink_edge s e) e BB)
      \<lparr>SuccessorBlock := (SuccessorBlock (link_edge (unlink_edge s e) e BB))(e := BB)\<rparr>)"
    by (rule link_edge_chains)
  then show ?thesis by (simp only: setSuccessor_def Let_def)
qed

lemma unlinked_chains: "unlinked s \<Longrightarrow> chains_ok s"
  unfolding chains_ok_def unlinked_def incoming_def
proof
  fix B
  assume "(\<forall>e. SuccessorBlock s e = None) \<and> (\<forall>B. PredList s B = None)"
  then have "pred_chain (Next s) (Prev s) None (PredList s B) [] \<and> distinct ([]::edge list)
      \<and> set [] = {e. SuccessorBlock s e = Some B}"
    by simp
  then show "\<exists>es. pred_chain (Next s) (Prev s) None (PredList s B) es \<and> distinct es
      \<and> set es = {e. SuccessorBlock s e = Some B}" ..
qed

lemma reachable_chains: "reachable s \<Longrightarrow> chains_ok s"
  by (induction rule: reachable.induct) (auto intro: unlinked_chains setSuccessor_chains)

section \<open>Facts about the linked function\<close>

lemma setSuccessor_frame:
  "InstList (setSuccessor s e BB) = InstList s"
  "InstKind (setSuccessor s e BB) = InstKind s"
  "ParentBB (setSuccessor s e BB) = ParentBB s"
  "ContainingInst (setSuccessor s e BB) = ContainingInst s"
  "ArgumentList (setSuccessor s e BB) = ArgumentList s"
  "Blocks (setSuccessor s e BB) = Blocks s"
  by (simp_all add: setSuccessor_def link_edge_def unlink_edge_def Let_def split: option.split)

lemma setSuccessor_target:
  "SuccessorBlock (setSuccessor s e BB) = (SuccessorBlock s)(e := BB)"
  by (simp add: setSuccessor_def Let_def link_edge_fields(4))
    (simp add: unlink_edge_def Let_def split: option.split)

lemma exampleState_unlinked: "unlinked exampleState"
  by (simp add: unlinked_def exampleState_def)

lemma linkedState_reachable: "reachable linkedState"
  unfolding linkedState_def
  by (intro reachable.retarget reachable.start exampleState_unlinked)

lemma linkedState_frame:
  "InstList linkedState = InstList exampleState"
  "InstKind linkedState = InstKind exampleState"
  "ParentBB linkedState = ParentBB exampleState"
  "ContainingInst linkedState = ContainingInst exampleState"
  by (simp_all add: linkedState_def setSuccessor_frame)

lemma linkedState_targets:
  "SuccessorBlock linkedState = (\<lambda>_. None)(0 := Some 1, 1 := Some 1, 2 := Some 0)"
  by (simp add: linkedState_def setSuccessor_target) (simp add: exampleState_def)

lemma linkedState_incoming:
  "incoming linkedState 0 = {2}" "incoming linkedState 1 = {0, 1}" "incoming linkedState 2 = {}"
  by (auto simp add: incoming_def linkedState_targets split: if_splits)

lemma linkedState_links:
  "PredList linkedState = (\<lambda>_. None)(0 := Some 2, 1 := Some 1)"
  "Next linkedState 1 = Some 0" "Next linkedState 0 = None" "Next linkedState 2 = None"
  by (simp_all add: linkedState_def setSuccessor_def link_edge_def unlink_edge_def Let_def
      exampleState_def fun_eq_iff)

section \<open>Predecessor and successor duality\<close>

lemma reachable_pred_range:
  assumes "reachable s"
  shows "\<exists>es. pred_range (Next s) (pred_begin s B) = Some es \<and> distinct es
           \<and> set es = incoming s B
           \<and> pred_chain (Next s) (Prev s) None (PredList s B) es"
proof -
  from assms have "chains_ok s" by (rule reachable_chains)
  then obtain es where es: "pred_chain (Next s) (Prev s) None (PredList s B) es"
    "distinct es" "set es = incoming s B"
    unfolding chains_ok_def by blast
  from es(1) have "pred_range (Next s) (pred_begin s B) = Some es"
    unfolding pred_begin_def by (rule pred_chain_range)
  with es show ?thesis by blast
qed

text \<open>
  Claim C2. In every state reached by any sequence of edge retargets: if \<open>e\<close> is a
  successor edge of the terminator of block \<open>A\<close> and its target is \<open>B\<close>, then the
  enumeration \<open>pred_begin() .. pred_end()\<close> of \<open>B\<close> returns and contains \<open>e\<close>, and
  \<open>getSuccessorBlocks()\<close> of \<open>A\<close> contains \<open>B\<close>; and an edge is in the enumeration
  of a block exactly when its target field is that block.
\<close>

theorem predecessor_successor_duality:
  assumes "reachable s"
  shows "(getTerminator s A = Inr T \<and> e \<in> set (TermInst_getSuccessors s T)
            \<and> SuccessorBlock s e = Some B
          \<longrightarrow> (\<exists>es. pred_range (Next s) (pred_begin s B) = Some es \<and> e \<in> set es)
            \<and> (\<exists>bs. getSuccessorBlocks s A = Inr bs \<and> Some B \<in> set bs))
       \<and> (\<exists>es. pred_range (Next s) (pred_begin s B) = Some es
              \<and> (\<forall>e'. e' \<in> set es \<longleftrightarrow> SuccessorBlock s e' = Some B))"
proof -
  from reachable_pred_range [OF assms, of B] obtain es where
    es: "pred_range (Next s) (pred_begin s B) = Some es" "set es = incoming s B"
    by blast
  from es(2) have mem: "\<forall>e'. e' \<in> set es \<longleftrightarrow> SuccessorBlock s e' = Some B"
    by (simp add: incoming_def)
  have fwd: "getTerminator s A = Inr T \<and> e \<in> set (TermInst_getSuccessors s T)
            \<and> SuccessorBlock s e = Some B
          \<longrightarrow> (\<exists>es. pred_range (Next s) (pred_begin s B) = Some es \<and> e \<in> set es)
            \<and> (\<exists>bs. getSuccessorBlocks s A = Inr bs \<and> Some B \<in> set bs)"
  proof
    assume a: "getTerminator s A = Inr T \<and> e \<in> set (TermInst_getSuccessors s T)
            \<and> SuccessorBlock s e = Some B"
    with mem have "e \<in> set es" by simp
    with es(1) have p: "\<exists>es. pred_range (Next s) (pred_begin s B) = Some es \<and> e \<in> set es"
      by blast
    from a have "getSuccessorBlocks s A = Inr (map (SuccessorBlock s) (TermInst_getSuccessors s T))"
      by (simp add: getSuccessorBlocks_def getSuccessors_def)
    moreover from a have "Some B \<in> set (map (SuccessorBlock s) (TermInst_getSuccessors s T))"
      by force
    ultimately have "\<exists>bs. getSuccessorBlocks s A = Inr bs \<and> Some B \<in> set bs" by blast
    with p show "(\<exists>es. pred_range (Next s) (pred_begin s B) = Some es \<and> e \<in> set es)
            \<and> (\<exists>bs. getSuccessorBlocks s A = Inr bs \<and> Some B \<in> set bs)" ..
  qed
  from es(1) mem have "\<exists>es. pred_range (Next s) (pred_begin s B) = Some es
              \<and> (\<forall>e'. e' \<in> set es \<longleftrightarrow> SuccessorBlock s e' = Some B)" by blast
  with fwd show ?thesis ..
qed

lemma linkedState_terminators:
  "getTerminator linkedState 0 = Inr 2" "getTerminator linkedState 1 = Inr 4"
  "getTerminator linkedState 2 = Inl (AssertionFailed MalformedBlock)"
  "TermInst_getSuccessors linkedState 2 = [0, 1]" "TermInst_getSuccessors linkedState 4 = [2]"
  by (simp_all add: getTerminator_def back_inst_def cast_TermInst_def TermInst_getSuccessors_def
      linkedState_frame exampleState_insts exampleState_kinds)

theorem predecessor_successor_duality_witness:
  "reachable linkedState
   \<and> getTerminator linkedState 0 = Inr 2 \<and> 0 \<in> set (TermInst_getSuccessors linkedState 2)
   \<and> SuccessorBlock linkedState 0 = Some 1
   \<and> (\<exists>es. pred_range (Next linkedState) (pred_begin linkedState 1) = Some es \<and> 0 \<in> set es)
   \<and> (\<exists>bs. getSuccessorBlocks linkedState 0 = Inr bs \<and> Some 1 \<in> set bs)"
  using predecessor_successor_duality [OF linkedState_reachable, of 0 2 0 1]
  by (simp add: linkedState_reachable linkedState_terminators linkedState_targets)

section \<open>getPredecessorBlocks\<close>

lemma count_list_map_distinct:
  "distinct es \<Longrightarrow> count_list (map f es) y = card {e \<in> set es. f e = y}"
proof (induction es)
  case Nil
  then show ?case by simp
next
  case (Cons x xs)
  then have ih: "count_list (map f xs) y = card {e \<in> set xs. f e = y}" and xn: "x \<notin> set xs"
    by simp_all
  show ?case
  proof (cases "f x = y")
    case True
    then have "{e \<in> set (x # xs). f e = y} = insert x {e \<in> set xs. f e = y}" by auto
    moreover have "x \<notin> {e \<in> set xs. f e = y}" using xn by simp
    moreover have "finite {e \<in> set xs. f e = y}" by simp
    ultimately have "card {e \<in> set (x # xs). f e = y} = Suc (card {e \<in> set xs. f e = y})"
      by simp
    with True ih show ?thesis by simp
  next
    case False
    then have "{e \<in> set (x # xs). f e = y} = {e \<in> set xs. f e = y}" by auto
    with False ih show ?thesis by simp
  qed
qed

text \<open>
  Claim C9. In every state reached by edge retargets, \<open>getPredecessorBlocks()\<close> of a block
  \<open>B\<close> enumerates one element per successor edge that targets \<open>B\<close>, not deduplicated
  by block: its length is the number of such edges, and a source block \<open>A\<close> appears as
  many times as there are edges targeting \<open>B\<close> whose terminator is in \<open>A\<close>.
\<close>

theorem getPredecessorBlocks_per_edge:
  assumes "reachable s"
  shows "\<exists>bs. getPredecessorBlocks s B = Some bs
           \<and> length bs = card (incoming s B)
           \<and> count_list bs (Some A) = card {e. SuccessorBlock s e = Some B \<and> pred_deref s e = Some A}"
proof -
  from reachable_pred_range [OF assms, of B] obtain es where
    es: "pred_range (Next s) (pred_begin s B) = Some es" "distinct es" "set es = incoming s B"
    by blast
  let ?bs = "map (pred_deref s) es"
  from es(1) have g: "getPredecessorBlocks s B = Some ?bs"
    by (simp add: getPredecessorBlocks_def)
  from es(2,3) have l: "length ?bs = card (incoming s B)"
    by (simp add: distinct_card [symmetric])
  have "{e \<in> set es. pred_deref s e = Some A}
      = {e. SuccessorBlock s e = Some B \<and> pred_deref s e = Some A}"
    using es(3) by (auto simp add: incoming_def)
  with count_list_map_distinct [OF es(2), of "pred_deref s" "Some A"]
  have c: "count_list ?bs (Some A)
      = card {e. SuccessorBlock s e = Some B \<and> pred_deref s e = Some A}"
    by (simp only:)
  from g l c show ?thesis by blast
qed

lemma linkedState_sources:
  "pred_deref linkedState 0 = Some 0" "pred_deref linkedState 1 = Some 0"
  "pred_deref linkedState (Suc 0) = Some 0"
  "pred_deref linkedState 2 = Some 1"
  by (simp_all add: pred_deref_def linkedState_frame exampleState_def)

theorem getPredecessorBlocks_per_edge_witness:
  "reachable linkedState
   \<and> (\<exists>bs. getPredecessorBlocks linkedState 1 = Some bs \<and> length bs = 2
          \<and> count_list bs (Some 0) = 2)"
proof -
  have "{e. SuccessorBlock linkedState e = Some 1 \<and> pred_deref linkedState e = Some 0} = {0, 1}"
    by (auto simp add: linkedState_targets linkedState_sources split: if_splits)
  then have "card {e. SuccessorBlock linkedState e = Some 1 \<and> pred_deref linkedState e = Some 0} = 2"
    by simp
  moreover have "card (incoming linkedState 1) = 2"
    by (simp only: linkedState_incoming) simp
  ultimately show ?thesis
    using getPredecessorBlocks_per_edge [OF linkedState_reachable, of 1 0]
    by (simp add: linkedState_reachable)
qed

section \<open>Single predecessor and single successor\<close>

lemma getSinglePredecessorBlock_chain:
  assumes "pred_chain (Next s) (Prev s) None (PredList s B) es"
  shows "getSinglePredecessorBlock s B = (case es of [e] \<Rightarrow> pred_deref s e | _ \<Rightarrow> None)"
proof (cases es)
  case Nil
  with assms show ?thesis
    by (simp add: getSinglePredecessorBlock_def pred_empty_def)
next
  case (Cons e es')
  with assms have h: "PredList s B = Some e" and r: "pred_chain (Next s) (Prev s) (Some e) (Next s e) es'"
    by auto
  show ?thesis
  proof (cases es')
    case Nil
    with r have "Next s e = None" by simp
    with h Cons Nil show ?thesis
      by (simp add: getSinglePredecessorBlock_def pred_empty_def pred_begin_def pred_end_def)
  next
    case (Cons e' es'')
    with r have "Next s e = Some e'" by simp
    with h \<open>es = e # es'\<close> Cons show ?thesis
      by (simp add: getSinglePredecessorBlock_def pred_empty_def pred_begin_def pred_end_def)
  qed
qed

lemma getSinglePredecessorBlock_reachable:
  assumes "reachable s"
  shows "finite (incoming s B)"
    and "incoming s B = {e} \<Longrightarrow> getSinglePredecessorBlock s B = pred_deref s e"
    and "card (incoming s B) \<noteq> 1 \<Longrightarrow> getSinglePredecessorBlock s B = None"
proof -
  from reachable_pred_range [OF assms, of B] obtain es where
    es: "distinct es" "set es = incoming s B"
      "pred_chain (Next s) (Prev s) None (PredList s B) es"
    by blast
  note g = getSinglePredecessorBlock_chain [OF es(3)]
  have "finite (set es)" by (rule finite_set)
  with es(2) show "finite (incoming s B)" by (simp only:)
  show "getSinglePredecessorBlock s B = pred_deref s e" if "incoming s B = {e}"
  proof -
    from that es(2) have s1: "set es = {e}" by simp
    from es(1) have "card (set es) = length es" by (rule distinct_card)
    with s1 have "length es = 1" by simp
    with s1 have "es = [e]" by (cases es) auto
    with g show ?thesis by simp
  qed
  show "getSinglePredecessorBlock s B = None" if "card (incoming s B) \<noteq> 1"
  proof -
    from es(1) have "card (set es) = length es" by (rule distinct_card)
    with that es(2) have "length es \<noteq> 1" by simp
    then have "case es of [e] \<Rightarrow> False | _ \<Rightarrow> True"
      by (cases es) (auto split: list.split)
    with g show ?thesis by (auto split: list.splits)
  qed
qed

lemma getSingleSuccessorBlock_value:
  "getTerminator s B = Inr T \<Longrightarrow>
     getSingleSuccessorBlock s B =
       Inr (case TermInst_getSuccessors s T of [e] \<Rightarrow> SuccessorBlock s e | _ \<Rightarrow> None)"
  by (auto simp add: getSingleSuccessorBlock_def succ_empty_def succ_begin_def succ_end_def
      succ_deref_def getSuccessors_def split: list.split)

lemma successor_queries_fail:
  assumes "getTerminator s B = Inl f"
  shows "getSuccessors s B = Inl f" "succ_empty s B = Inl f" "succ_begin s B = Inl f"
    "succ_end s B = Inl f" "getSuccessorBlocks s B = Inl f"
    "getSingleSuccessorBlock s B = Inl f" "isSuccessorBlock s B BB = Inl f"
  using assms
  by (simp_all add: getSuccessors_def succ_empty_def succ_begin_def succ_end_def
      getSuccessorBlocks_def getSingleSuccessorBlock_def isSuccessorBlock_def)

lemma getSingleSuccessorBlock_no_terminator:
  "InstList s B = [] \<Longrightarrow>
     getSingleSuccessorBlock s B = Inl (AssertionFailed MalformedBlock)"
  "InstList s B \<noteq> [] \<Longrightarrow> InstKind s (last (InstList s B)) = NonTerminator \<Longrightarrow>
     getSingleSuccessorBlock s B = Inl (AssertionFailed CastIncompatibleType)"
proof -
  assume "InstList s B = []"
  then have "getTerminator s B = Inl (AssertionFailed MalformedBlock)"
    by (simp add: getTerminator_def)
  then show "getSingleSuccessorBlock s B = Inl (AssertionFailed MalformedBlock)"
    by (rule successor_queries_fail)
next
  assume "InstList s B \<noteq> []" and "InstKind s (last (InstList s B)) = NonTerminator"
  then have "getTerminator s B = Inl (AssertionFailed CastIncompatibleType)"
    by (simp add: getTerminator_def back_inst_def cast_TermInst_def)
  then show "getSingleSuccessorBlock s B = Inl (AssertionFailed CastIncompatibleType)"
    by (rule successor_queries_fail)
qed

lemma getSingleSuccessorBlock_terminator:
  assumes "InstList s B \<noteq> []" and "InstKind s (last (InstList s B)) = TermInst es"
  shows "getSingleSuccessorBlock s B
           = Inr (case es of [e] \<Rightarrow> SuccessorBlock s e | _ \<Rightarrow> None)"
proof -
  from assms have t: "getTerminator s B = Inr (last (InstList s B))"
    by (simp add: getTerminator_def back_inst_def cast_TermInst_def)
  from assms(2) have "TermInst_getSuccessors s (last (InstList s B)) = es"
    by (simp add: TermInst_getSuccessors_def)
  with getSingleSuccessorBlock_value [OF t] show ?thesis by simp
qed

lemma detachedState_reachable: "reachable detachedState"
  unfolding detachedState_def
  by (intro reachable.retarget reachable.start exampleState_unlinked)

lemma detachedState_incoming: "incoming detachedState 2 = {3}"
  by (auto simp add: incoming_def detachedState_def setSuccessor_target exampleState_def
      split: if_splits)

lemma detachedState_single_predecessor:
  "getSinglePredecessorBlock detachedState 2 = None"
  by (simp add: getSinglePredecessorBlock_def pred_empty_def pred_begin_def pred_end_def
      pred_deref_def detachedState_def setSuccessor_def link_edge_def unlink_edge_def Let_def
      exampleState_def)

text \<open>
  Claim C3, as stated, fails on both sides. Successor side: block 1 ends in a terminator
  with exactly one successor edge, which is not bound to a block, and
  \<open>getSingleSuccessorBlock()\<close> returns null although the out-degree is 1; block 2 has no
  instructions, and there \<open>getSingleSuccessorBlock()\<close> does not return null, it fails the
  assertion of \<open>getTerminator()\<close>. Predecessor side: after edge 3 is bound to block 2,
  exactly one edge targets block 2, but the terminator that owns the edge is in no block,
  and \<open>getSinglePredecessorBlock()\<close> returns null although the in-degree is 1.
\<close>

theorem single_block_queries_counterexample:
  "getSuccessors exampleState 1 = Inr [2]
   \<and> getSingleSuccessorBlock exampleState 1 = Inr None
   \<and> InstList exampleState 2 = []
   \<and> getSingleSuccessorBlock exampleState 2 = Inl (AssertionFailed MalformedBlock)
   \<and> reachable detachedState
   \<and> incoming detachedState 2 = {3}
   \<and> card (incoming detachedState 2) = 1
   \<and> getSinglePredecessorBlock detachedState 2 = None"
proof -
  have t1: "getTerminator exampleState 1 = Inr 4"
    by (simp add: getTerminator_def back_inst_def cast_TermInst_def exampleState_insts
        exampleState_kinds)
  have t2: "getTerminator exampleState 2 = Inl (AssertionFailed MalformedBlock)"
    by (simp add: getTerminator_def exampleState_insts)
  have s4: "TermInst_getSuccessors exampleState 4 = [2]"
    by (simp add: TermInst_getSuccessors_def exampleState_kinds)
  have "SuccessorBlock exampleState 2 = None" by (simp add: exampleState_def)
  with t1 s4 have a: "getSingleSuccessorBlock exampleState 1 = Inr None"
    by (simp add: getSingleSuccessorBlock_value)
  from t1 s4 have b: "getSuccessors exampleState 1 = Inr [2]"
    by (simp add: getSuccessors_def)
  from t2 have c: "getSingleSuccessorBlock exampleState 2 = Inl (AssertionFailed MalformedBlock)"
    by (rule successor_queries_fail)
  have d: "card (incoming detachedState 2) = 1"
    by (simp only: detachedState_incoming) simp
  from a b c d exampleState_insts(3) detachedState_reachable detachedState_incoming
    detachedState_single_predecessor
  show ?thesis by (simp only: simp_thms)
qed

text \<open>
  Claim C3, amended. In every state reached by edge retargets,
  \<open>getSinglePredecessorBlock()\<close> returns null when the in-degree of the block is 0 or at
  least 2; when exactly one edge targets the block it returns the block that contains the
  terminator owning that edge, which is null when that terminator is in no block. So a
  non-null result means that the in-degree is exactly 1 and names the block of the only
  incoming edge. \<open>getSingleSuccessorBlock()\<close> fails the assertion of \<open>getTerminator()\<close>
  on a block with no instructions and the \<open>cast<TermInst>\<close> check on a non-empty block
  whose last instruction is not a terminator. On a block whose last instruction is a
  terminator it returns the target of the only successor edge (null when that edge is
  unbound) when the terminator has exactly one successor edge, and null when it has none or
  at least two.
\<close>

theorem single_predecessor_successor:
  "(reachable s \<longrightarrow>
      finite (incoming s B)
    \<and> (\<forall>e. incoming s B = {e}
           \<longrightarrow> getSinglePredecessorBlock s B = ParentBB s (ContainingInst s e))
    \<and> (card (incoming s B) \<noteq> 1 \<longrightarrow> getSinglePredecessorBlock s B = None)
    \<and> (\<forall>A. getSinglePredecessorBlock s B = Some A
           \<longrightarrow> (\<exists>e. incoming s B = {e} \<and> ParentBB s (ContainingInst s e) = Some A)))
 \<and> (InstList s B = [] \<longrightarrow>
      getSingleSuccessorBlock s B = Inl (AssertionFailed MalformedBlock))
 \<and> (InstList s B \<noteq> [] \<and> InstKind s (last (InstList s B)) = NonTerminator \<longrightarrow>
      getSingleSuccessorBlock s B = Inl (AssertionFailed CastIncompatibleType))
 \<and> (\<forall>es. InstList s B \<noteq> [] \<and> InstKind s (last (InstList s B)) = TermInst es \<longrightarrow>
      (\<forall>e. es = [e] \<longrightarrow> getSingleSuccessorBlock s B = Inr (SuccessorBlock s e))
    \<and> (length es \<noteq> 1 \<longrightarrow> getSingleSuccessorBlock s B = Inr None))"
proof -
  have p: "reachable s \<longrightarrow>
      finite (incoming s B)
    \<and> (\<forall>e. incoming s B = {e}
           \<longrightarrow> getSinglePredecessorBlock s B = ParentBB s (ContainingInst s e))
    \<and> (card (incoming s B) \<noteq> 1 \<longrightarrow> getSinglePredecessorBlock s B = None)
    \<and> (\<forall>A. getSinglePredecessorBlock s B = Some A
           \<longrightarrow> (\<exists>e. incoming s B = {e} \<and> ParentBB s (ContainingInst s e) = Some A))"
  proof
    assume r: "reachable s"
    note g = getSinglePredecessorBlock_reachable [OF r, where B = B]
    have one: "\<forall>e. incoming s B = {e}
           \<longrightarrow> getSinglePredecessorBlock s B = ParentBB s (ContainingInst s e)"
      using g(2) by (simp add: pred_deref_def)
    have other: "card (incoming s B) \<noteq> 1 \<longrightarrow> getSinglePredecessorBlock s B = None"
      using g(3) by blast
    have conv: "\<forall>A. getSinglePredecessorBlock s B = Some A
           \<longrightarrow> (\<exists>e. incoming s B = {e} \<and> ParentBB s (ContainingInst s e) = Some A)"
    proof (intro allI impI)
      fix A
      assume a: "getSinglePredecessorBlock s B = Some A"
      with other have "card (incoming s B) = 1" by auto
      then obtain e where e: "incoming s B = {e}" by (auto simp add: card_1_singleton_iff)
      with one a have "ParentBB s (ContainingInst s e) = Some A" by simp
      with e show "\<exists>e. incoming s B = {e} \<and> ParentBB s (ContainingInst s e) = Some A"
        by blast
    qed
    from g(1) one other conv
    show "finite (incoming s B)
      \<and> (\<forall>e. incoming s B = {e}
             \<longrightarrow> getSinglePredecessorBlock s B = ParentBB s (ContainingInst s e))
      \<and> (card (incoming s B) \<noteq> 1 \<longrightarrow> getSinglePredecessorBlock s B = None)
      \<and> (\<forall>A. getSinglePredecessorBlock s B = Some A
             \<longrightarrow> (\<exists>e. incoming s B = {e} \<and> ParentBB s (ContainingInst s e) = Some A))"
      by (simp only: simp_thms)
  qed
  have q1: "InstList s B = [] \<longrightarrow>
      getSingleSuccessorBlock s B = Inl (AssertionFailed MalformedBlock)"
    using getSingleSuccessorBlock_no_terminator(1) by blast
  have q2: "InstList s B \<noteq> [] \<and> InstKind s (last (InstList s B)) = NonTerminator \<longrightarrow>
      getSingleSuccessorBlock s B = Inl (AssertionFailed CastIncompatibleType)"
    using getSingleSuccessorBlock_no_terminator(2) by blast
  have q3: "\<forall>es. InstList s B \<noteq> [] \<and> InstKind s (last (InstList s B)) = TermInst es \<longrightarrow>
      (\<forall>e. es = [e] \<longrightarrow> getSingleSuccessorBlock s B = Inr (SuccessorBlock s e))
    \<and> (length es \<noteq> 1 \<longrightarrow> getSingleSuccessorBlock s B = Inr None)"
  proof (intro allI impI conjI)
    fix es e
    assume "InstList s B \<noteq> [] \<and> InstKind s (last (InstList s B)) = TermInst es" "es = [e]"
    then show "getSingleSuccessorBlock s B = Inr (SuccessorBlock s e)"
      by (simp add: getSingleSuccessorBlock_terminator)
  next
    fix es
    assume t: "InstList s B \<noteq> [] \<and> InstKind s (last (InstList s B)) = TermInst es"
      and l: "length es \<noteq> 1"
    from l have "(case es of [e] \<Rightarrow> SuccessorBlock s e | _ \<Rightarrow> None) = None"
      by (auto split: list.split)
    with t show "getSingleSuccessorBlock s B = Inr None"
      by (simp add: getSingleSuccessorBlock_terminator)
  qed
  from p q1 q2 q3 show ?thesis by (simp only: simp_thms)
qed

theorem single_predecessor_successor_witness:
  "reachable linkedState
   \<and> incoming linkedState 0 = {2} \<and> getSinglePredecessorBlock linkedState 0 = Some 1
   \<and> card (incoming linkedState 1) = 2 \<and> getSinglePredecessorBlock linkedState 1 = None
   \<and> card (incoming linkedState 2) = 0 \<and> getSinglePredecessorBlock linkedState 2 = None
   \<and> (\<exists>e. incoming linkedState 0 = {e}
          \<and> ParentBB linkedState (ContainingInst linkedState e) = Some 1)
   \<and> InstList linkedState 1 \<noteq> []
   \<and> InstKind linkedState (last (InstList linkedState 1)) = TermInst [2]
   \<and> getSingleSuccessorBlock linkedState 1 = Inr (Some 0)
   \<and> InstList linkedState 0 \<noteq> []
   \<and> InstKind linkedState (last (InstList linkedState 0)) = TermInst [0, 1]
   \<and> getSingleSuccessorBlock linkedState 0 = Inr None
   \<and> InstList linkedState 2 = []
   \<and> getSingleSuccessorBlock linkedState 2 = Inl (AssertionFailed MalformedBlock)
   \<and> InstList buildingState 2 \<noteq> []
   \<and> InstKind buildingState (last (InstList buildingState 2)) = NonTerminator
   \<and> getSingleSuccessorBlock buildingState 2 = Inl (AssertionFailed CastIncompatibleType)"
proof -
  have r: "reachable linkedState" by (rule linkedState_reachable)
  have i0: "incoming linkedState 0 = {2}" by (rule linkedState_incoming)
  have c1: "card (incoming linkedState 1) = 2" by (simp only: linkedState_incoming) simp
  have c2: "card (incoming linkedState 2) = 0" by (simp only: linkedState_incoming) simp
  have src2: "ParentBB linkedState (ContainingInst linkedState 2) = Some 1"
    by (simp add: linkedState_frame exampleState_def)
  have b1: "InstList linkedState 1 \<noteq> []"
    "InstKind linkedState (last (InstList linkedState 1)) = TermInst [2]"
    by (simp_all add: linkedState_frame exampleState_insts exampleState_kinds)
  have b0: "InstList linkedState 0 \<noteq> []"
    "InstKind linkedState (last (InstList linkedState 0)) = TermInst [0, 1]"
    by (simp_all add: linkedState_frame exampleState_insts exampleState_kinds)
  have b2: "InstList linkedState 2 = []"
    by (simp add: linkedState_frame exampleState_insts)
  have u: "InstList buildingState 2 \<noteq> []"
    "InstKind buildingState (last (InstList buildingState 2)) = NonTerminator"
    by (simp_all add: buildingState_def exampleState_def)
  have t20: "SuccessorBlock linkedState 2 = Some 0" by (simp add: linkedState_targets)
  note T0 = single_predecessor_successor [of linkedState 0]
  note T1 = single_predecessor_successor [of linkedState 1]
  note T2 = single_predecessor_successor [of linkedState 2]
  note TU = single_predecessor_successor [of buildingState 2]
  from T0 r i0 have "getSinglePredecessorBlock linkedState 0
      = ParentBB linkedState (ContainingInst linkedState 2)" by blast
  with src2 have p0: "getSinglePredecessorBlock linkedState 0 = Some 1" by simp
  from T0 r p0 have p0': "\<exists>e. incoming linkedState 0 = {e}
      \<and> ParentBB linkedState (ContainingInst linkedState e) = Some 1" by blast
  from T1 r c1 have p1: "getSinglePredecessorBlock linkedState 1 = None" by simp
  from T2 r c2 have p2: "getSinglePredecessorBlock linkedState 2 = None" by simp
  from T1 b1 have "getSingleSuccessorBlock linkedState 1 = Inr (SuccessorBlock linkedState 2)"
    by blast
  with t20 have s1: "getSingleSuccessorBlock linkedState 1 = Inr (Some 0)" by simp
  from T0 b0 have "length [0::nat, 1] \<noteq> 1
      \<longrightarrow> getSingleSuccessorBlock linkedState 0 = Inr None" by blast
  then have s0: "getSingleSuccessorBlock linkedState 0 = Inr None" by simp
  from T2 b2 have s2: "getSingleSuccessorBlock linkedState 2 = Inl (AssertionFailed MalformedBlock)"
    by blast
  from TU u have su: "getSingleSuccessorBlock buildingState 2
      = Inl (AssertionFailed CastIncompatibleType)" by blast
  from r i0 c1 c2 p0 p0' p1 p2 b0 b1 b2 s0 s1 s2 u su
  show ?thesis by (simp only: simp_thms)
qed

section \<open>Preconditions of the successor and predecessor queries\<close>

lemma successor_queries_return:
  assumes "getTerminator s B = Inr T"
  shows "getSuccessors s B = Inr (TermInst_getSuccessors s T)"
    "succ_empty s B = Inr (TermInst_getSuccessors s T = [])"
    "succ_begin s B = Inr 0"
    "succ_end s B = Inr (length (TermInst_getSuccessors s T))"
    "getSuccessorBlocks s B = Inr (map (SuccessorBlock s) (TermInst_getSuccessors s T))"
    "isSuccessorBlock s B BB
       = Inr (list_ex (\<lambda>SuccBB. BB = SuccBB) (map (SuccessorBlock s) (TermInst_getSuccessors s T)))"
  using assms
  by (simp_all add: getSuccessors_def succ_empty_def succ_begin_def succ_end_def
      getSuccessorBlocks_def isSuccessorBlock_def)

lemma predecessor_queries_return:
  assumes "reachable s"
  shows "pred_empty s B = (incoming s B = {})"
    and "\<exists>bs. getPredecessorBlocks s B = Some bs"
    and "isPredecessorBlock s B BB = Some (\<exists>e. SuccessorBlock s e = Some B \<and> BB = pred_deref s e)"
proof -
  from reachable_pred_range [OF assms, of B] obtain es where
    es: "pred_range (Next s) (pred_begin s B) = Some es" "set es = incoming s B"
      "pred_chain (Next s) (Prev s) None (PredList s B) es"
    by blast
  have "(PredList s B = None) = (es = [])"
    using es(3) by (cases es) auto
  with es(2) show "pred_empty s B = (incoming s B = {})"
    by (auto simp add: pred_empty_def)
  from es(1) show "\<exists>bs. getPredecessorBlocks s B = Some bs"
    by (simp add: getPredecessorBlocks_def)
  have "isPredecessorBlock s B BB = Some (list_ex (\<lambda>e. BB = pred_deref s e) es)"
    unfolding isPredecessorBlock_def pred_begin_def using es(3) by (rule pred_chain_any_of)
  moreover have "list_ex (\<lambda>e. BB = pred_deref s e) es
      = (\<exists>e. SuccessorBlock s e = Some B \<and> BB = pred_deref s e)"
    using es(2) by (auto simp add: list_ex_iff incoming_def)
  ultimately show "isPredecessorBlock s B BB
      = Some (\<exists>e. SuccessorBlock s e = Some B \<and> BB = pred_deref s e)"
    by (simp only:)
qed

text \<open>
  Claim C10. Every successor-side query (\<open>getSuccessors\<close>, \<open>succ_empty\<close>,
  \<open>succ_begin\<close>, \<open>succ_end\<close>, \<open>getSuccessorBlocks\<close>, \<open>getSingleSuccessorBlock\<close>,
  \<open>isSuccessorBlock\<close>) goes through \<open>getTerminator()\<close>: it fails exactly as
  \<open>getTerminator()\<close> fails, on an empty block with the assertion on the empty instruction
  list, and returns when \<open>getTerminator()\<close> returns. The predecessor-side queries
  (\<open>pred_empty\<close>, \<open>getPredecessorBlocks\<close>, \<open>isPredecessorBlock\<close>,
  \<open>getSinglePredecessorBlock\<close>) do not look at the instruction list: in every state
  reached by edge retargets they return on any block, an empty one included.
\<close>

theorem successor_queries_need_terminator:
  "(InstList s B = [] \<longrightarrow> getTerminator s B = Inl (AssertionFailed MalformedBlock))
 \<and> (\<forall>f. getTerminator s B = Inl f \<longrightarrow>
        getSuccessors s B = Inl f \<and> succ_empty s B = Inl f \<and> succ_begin s B = Inl f
      \<and> succ_end s B = Inl f \<and> getSuccessorBlocks s B = Inl f
      \<and> getSingleSuccessorBlock s B = Inl f \<and> isSuccessorBlock s B BB = Inl f)
 \<and> (\<forall>T. getTerminator s B = Inr T \<longrightarrow>
        (\<exists>ss. getSuccessors s B = Inr ss) \<and> (\<exists>b. succ_empty s B = Inr b)
      \<and> (\<exists>i. succ_begin s B = Inr i) \<and> (\<exists>i. succ_end s B = Inr i)
      \<and> (\<exists>bs. getSuccessorBlocks s B = Inr bs)
      \<and> (\<exists>r. getSingleSuccessorBlock s B = Inr r) \<and> (\<exists>b. isSuccessorBlock s B BB = Inr b))
 \<and> (reachable s \<longrightarrow>
        pred_empty s B = (incoming s B = {})
      \<and> (\<exists>bs. getPredecessorBlocks s B = Some bs)
      \<and> isPredecessorBlock s B BB
          = Some (\<exists>e. SuccessorBlock s e = Some B \<and> BB = pred_deref s e)
      \<and> (\<forall>e. incoming s B = {e} \<longrightarrow> getSinglePredecessorBlock s B = pred_deref s e)
      \<and> (card (incoming s B) \<noteq> 1 \<longrightarrow> getSinglePredecessorBlock s B = None))"
proof -
  have a: "InstList s B = [] \<longrightarrow> getTerminator s B = Inl (AssertionFailed MalformedBlock)"
    by (simp add: getTerminator_def)
  have b: "\<forall>f. getTerminator s B = Inl f \<longrightarrow>
        getSuccessors s B = Inl f \<and> succ_empty s B = Inl f \<and> succ_begin s B = Inl f
      \<and> succ_end s B = Inl f \<and> getSuccessorBlocks s B = Inl f
      \<and> getSingleSuccessorBlock s B = Inl f \<and> isSuccessorBlock s B BB = Inl f"
    using successor_queries_fail [where s = s and B = B] by blast
  have c: "\<forall>T. getTerminator s B = Inr T \<longrightarrow>
        (\<exists>ss. getSuccessors s B = Inr ss) \<and> (\<exists>b. succ_empty s B = Inr b)
      \<and> (\<exists>i. succ_begin s B = Inr i) \<and> (\<exists>i. succ_end s B = Inr i)
      \<and> (\<exists>bs. getSuccessorBlocks s B = Inr bs)
      \<and> (\<exists>r. getSingleSuccessorBlock s B = Inr r) \<and> (\<exists>b. isSuccessorBlock s B BB = Inr b)"
    using successor_queries_return [where s = s and B = B]
      getSingleSuccessorBlock_value [where s = s and B = B] by blast
  have d: "reachable s \<longrightarrow>
        pred_empty s B = (incoming s B = {})
      \<and> (\<exists>bs. getPredecessorBlocks s B = Some bs)
      \<and> isPredecessorBlock s B BB
          = Some (\<exists>e. SuccessorBlock s e = Some B \<and> BB = pred_deref s e)
      \<and> (\<forall>e. incoming s B = {e} \<longrightarrow> getSinglePredecessorBlock s B = pred_deref s e)
      \<and> (card (incoming s B) \<noteq> 1 \<longrightarrow> getSinglePredecessorBlock s B = None)"
    using predecessor_queries_return(1,2) [where s = s and B = B]
      predecessor_queries_return(3) [where s = s and B = B and BB = BB]
      getSinglePredecessorBlock_reachable(2,3) [where s = s and B = B]
    by blast
  from a b c d show ?thesis by (simp only: simp_thms)
qed

theorem successor_queries_need_terminator_witness:
  "InstList linkedState 2 = [] \<and> reachable linkedState
   \<and> getTerminator linkedState 2 = Inl (AssertionFailed MalformedBlock)
   \<and> getSuccessors linkedState 2 = Inl (AssertionFailed MalformedBlock)
   \<and> succ_empty linkedState 2 = Inl (AssertionFailed MalformedBlock)
   \<and> succ_begin linkedState 2 = Inl (AssertionFailed MalformedBlock)
   \<and> succ_end linkedState 2 = Inl (AssertionFailed MalformedBlock)
   \<and> getSingleSuccessorBlock linkedState 2 = Inl (AssertionFailed MalformedBlock)
   \<and> isSuccessorBlock linkedState 2 (Some 0) = Inl (AssertionFailed MalformedBlock)
   \<and> pred_empty linkedState 2
   \<and> (\<exists>bs. getPredecessorBlocks linkedState 2 = Some bs)
   \<and> isPredecessorBlock linkedState 2 (Some 0) = Some False
   \<and> getSinglePredecessorBlock linkedState 2 = None
   \<and> getTerminator linkedState 0 = Inr 2
   \<and> (\<exists>ss. getSuccessors linkedState 0 = Inr ss)
   \<and> (\<exists>b. isSuccessorBlock linkedState 0 (Some 1) = Inr b)"
proof -
  have e2: "InstList linkedState 2 = []"
    by (simp add: linkedState_frame exampleState_insts)
  have i2: "incoming linkedState 2 = {}" by (rule linkedState_incoming)
  have c2: "card (incoming linkedState 2) \<noteq> 1" by (simp only: i2) simp
  have n2: "\<not> (\<exists>e. SuccessorBlock linkedState e = Some 2 \<and> Some 0 = pred_deref linkedState e)"
    by (simp add: linkedState_targets)
  note T2 = successor_queries_need_terminator [of linkedState 2 "Some 0"]
  note T0 = successor_queries_need_terminator [of linkedState 0 "Some 1"]
  from T2 e2 have f: "getTerminator linkedState 2 = Inl (AssertionFailed MalformedBlock)" by blast
  from T2 f have s: "getSuccessors linkedState 2 = Inl (AssertionFailed MalformedBlock)"
    "succ_empty linkedState 2 = Inl (AssertionFailed MalformedBlock)"
    "succ_begin linkedState 2 = Inl (AssertionFailed MalformedBlock)"
    "succ_end linkedState 2 = Inl (AssertionFailed MalformedBlock)"
    "getSingleSuccessorBlock linkedState 2 = Inl (AssertionFailed MalformedBlock)"
    "isSuccessorBlock linkedState 2 (Some 0) = Inl (AssertionFailed MalformedBlock)"
    by blast+
  from T2 linkedState_reachable have p: "pred_empty linkedState 2 = (incoming linkedState 2 = {})"
    "\<exists>bs. getPredecessorBlocks linkedState 2 = Some bs"
    "isPredecessorBlock linkedState 2 (Some 0)
      = Some (\<exists>e. SuccessorBlock linkedState e = Some 2 \<and> Some 0 = pred_deref linkedState e)"
    "card (incoming linkedState 2) \<noteq> 1 \<longrightarrow> getSinglePredecessorBlock linkedState 2 = None"
    by blast+
  from p(1) i2 have p1: "pred_empty linkedState 2" by simp
  from p(3) n2 have p3: "isPredecessorBlock linkedState 2 (Some 0) = Some False" by simp
  from p(4) c2 have p4: "getSinglePredecessorBlock linkedState 2 = None" by blast
  from T0 linkedState_terminators(1) have q: "\<exists>ss. getSuccessors linkedState 0 = Inr ss"
    "\<exists>b. isSuccessorBlock linkedState 0 (Some 1) = Inr b"
    by blast+
  from e2 linkedState_reachable f s p1 p(2) p3 p4 linkedState_terminators(1) q
  show ?thesis by (simp only: simp_thms)
qed

end
